theory Spec2Isabelle
  imports Main
begin

section \<open>Data model (reader.go)\<close>

text \<open>
  A Go \<^verbatim>\<open>rune\<close> is a 32-bit code point and \<^verbatim>\<open>Position.Row\<close>, \<^verbatim>\<open>Position.Col\<close> are
  64-bit ints. The reader only compares runes with constants and moves a position by one
  column or one row per raw rune, so neither can wrap before the source has delivered
  \<open>2^63\<close> runes: both are modelled as unbounded \<open>int\<close>. A Go string is modelled by the
  sequence of its runes: \<^verbatim>\<open>ReadRune\<close> only delivers valid code points (U+FFFD for invalid
  input), for which writing a rune to a string and reading it back are inverse.
\<close>

type_synonym rune = int
type_synonym gostring = "rune list"

definition str :: "string \<Rightarrow> gostring" where
  "str s = map of_char s"

record Position =
  Row :: int
  Col :: int

record Char =
  Rune :: rune
  Pos :: Position
  Escaped :: bool

text \<open>
  Errors as values. \<open>EOF\<close> is the unwrapped \<^verbatim>\<open>io.EOF\<close>; \<open>PositionalError row col msg\<close> is
  \<^verbatim>\<open>goerrors.NewPositionalError(row, col, err)\<close> with \<open>msg\<close> the text of the wrapped error;
  \<open>Errorf msg\<close> is a plain \<^verbatim>\<open>fmt.Errorf\<close>; \<open>Panic\<close> is a run-time panic.
\<close>

datatype error =
    EOF
  | PositionalError int int gostring
  | Errorf gostring
  | ZeroStateError
  | IllegalStateError
  | Panic

section \<open>The raw source: bufio.Reader over an io.Reader\<close>

text \<open>
  What a raw read can fail with: \<^verbatim>\<open>io.EOF\<close>, or any other error, kept by its message.
\<close>

datatype src_error = io_EOF | io_Error gostring

fun Error :: "src_error \<Rightarrow> gostring" where
  "Error io_EOF = str ''EOF''"
| "Error (io_Error m) = m"

text \<open>
  The standard library's \<^verbatim>\<open>bufio.Reader\<close>, at the level of decoded runes: the runes the
  source still holds (a finite sequence), the condition the source reports once they
  are used up (it keeps reporting it, as \<^verbatim>\<open>strings.Reader\<close> and the tests' \<^verbatim>\<open>errorReader\<close>
  do), and the rune that \<^verbatim>\<open>UnreadRune\<close> can give back (\<^verbatim>\<open>lastRuneSize\<close>: set by a
  successful \<^verbatim>\<open>ReadRune\<close>, cleared by a failed one and by \<^verbatim>\<open>UnreadRune\<close>).
\<close>

record bufio_Reader =
  runes :: "rune list"
  atEnd :: src_error
  lastRune :: "rune option"

definition NewReader :: "rune list \<Rightarrow> src_error \<Rightarrow> bufio_Reader" where
  "NewReader rs e = \<lparr>runes = rs, atEnd = e, lastRune = None\<rparr>"

definition ReadRune :: "bufio_Reader \<Rightarrow> (src_error + rune) \<times> bufio_Reader" where
  "ReadRune b =
     (case runes b of
        [] \<Rightarrow> (Inl (atEnd b), b\<lparr>lastRune := None\<rparr>)
      | x # xs \<Rightarrow> (Inr x, b\<lparr>runes := xs, lastRune := Some x\<rparr>))"

definition ErrInvalidUnreadRune :: gostring where
  "ErrInvalidUnreadRune = str ''bufio: invalid use of UnreadRune''"

definition UnreadRune :: "bufio_Reader \<Rightarrow> gostring option \<times> bufio_Reader" where
  "UnreadRune b =
     (case lastRune b of
        None \<Rightarrow> (Some ErrInvalidUnreadRune, b)
      | Some x \<Rightarrow> (None, b\<lparr>runes := x # runes b, lastRune := None\<rparr>))"

section \<open>The checkpointable lookahead buffer (gobuffer)\<close>

text \<open>
  Modelled from the spec: the package \<^verbatim>\<open>github.com/habak67/gobuffer\<close> (the type \<^verbatim>\<open>Buffer\<close>,
  its \<^verbatim>\<open>State\<close> and its methods) is not part of the sources. The spec gives its contract:
  append, front without removing, pending count, advance, snapshot of the read cursor,
  restore to a snapshot (failing with zero-state or illegal-state), and discarding the
  elements strictly before the read cursor. The buffer is modelled as the retained
  elements, the read cursor into them and the number of elements discarded so far.
\<close>

record Buffer =
  elems :: "Char list"
  cursor :: nat
  dropped :: nat

text \<open>
  Modelled from the spec: \<^verbatim>\<open>gobuffer.State\<close>, an opaque snapshot of the read cursor, with
  a zero value that no snapshot equals. A snapshot is the absolute index of the cursor,
  counting the discarded elements.
\<close>

datatype gobuffer_State = ZeroState | Snapshot nat

definition NewWithSize :: Buffer where
  \<comment> \<open>Modelled from the spec: \<^verbatim>\<open>gobuffer.NewWithSize\<close>; the sizes are a tuning hint only.\<close>
  "NewWithSize = \<lparr>elems = [], cursor = 0, dropped = 0\<rparr>"

definition Buffered :: "Buffer \<Rightarrow> nat" where
  \<comment> \<open>Modelled from the spec: \<^verbatim>\<open>Buffer.Buffered\<close>, the pending count.\<close>
  "Buffered b = length (elems b) - cursor b"

definition Buffer_Write :: "Char \<Rightarrow> Buffer \<Rightarrow> Buffer" where
  \<comment> \<open>Modelled from the spec: \<^verbatim>\<open>Buffer.Write\<close>, append.\<close>
  "Buffer_Write c b = b\<lparr>elems := elems b @ [c]\<rparr>"

definition Buffer_Next :: "Buffer \<Rightarrow> Char option" where
  \<comment> \<open>Modelled from the spec: \<^verbatim>\<open>Buffer.Next\<close>, the front element without removing it.\<close>
  "Buffer_Next b = (if cursor b < length (elems b) then Some (elems b ! cursor b) else None)"

definition Buffer_Consume :: "Buffer \<Rightarrow> Buffer" where
  \<comment> \<open>Modelled from the spec: \<^verbatim>\<open>Buffer.Consume\<close>, advance past the front element. The spec
      does not say what it does when nothing is pending; here it does nothing. The
      theorems on runs require every \<^verbatim>\<open>Consume\<close> to find an element pending.\<close>
  "Buffer_Consume b = (if cursor b < length (elems b) then b\<lparr>cursor := cursor b + 1\<rparr> else b)"

definition Buffer_State :: "Buffer \<Rightarrow> gobuffer_State" where
  \<comment> \<open>Modelled from the spec: \<^verbatim>\<open>Buffer.State\<close>, the snapshot.\<close>
  "Buffer_State b = Snapshot (dropped b + cursor b)"

definition Buffer_Rollback :: "gobuffer_State \<Rightarrow> Buffer \<Rightarrow> error option \<times> Buffer" where
  \<comment> \<open>Modelled from the spec: \<^verbatim>\<open>Buffer.Rollback\<close>, restore; zero-state for the zero value,
      illegal-state for a snapshot outside the retained elements.\<close>
  "Buffer_Rollback s b =
     (case s of
        ZeroState \<Rightarrow> (Some ZeroStateError, b)
      | Snapshot i \<Rightarrow>
          if i < dropped b \<or> dropped b + length (elems b) < i then (Some IllegalStateError, b)
          else (None, b\<lparr>cursor := i - dropped b\<rparr>))"

definition Buffer_Commit :: "Buffer \<Rightarrow> Buffer" where
  \<comment> \<open>Modelled from the spec: \<^verbatim>\<open>Buffer.Commit\<close>, discard the elements before the cursor.\<close>
  "Buffer_Commit b =
     b\<lparr>elems := drop (cursor b) (elems b), cursor := 0, dropped := dropped b + cursor b\<rparr>"

section \<open>The reader\<close>

datatype transformer =
    normalizeNewline
  | unicodeEscape
  | runeEscape "rune \<rightharpoonup> rune"

record Reader =
  reader :: bufio_Reader
  pos :: Position
  buffer :: Buffer
  transformers :: "transformer list"

record State =
  bufState :: gobuffer_State

definition startPosition :: Position where
  "startPosition = \<lparr>Row = 1, Col = 1\<rparr>"

subsection \<open>Builder\<close>

text \<open>
  \<^verbatim>\<open>WithSource\<close> wraps the source and starts at \<^verbatim>\<open>startPosition\<close>. The buffer, which
  \<^verbatim>\<open>WithSize\<close> or \<^verbatim>\<open>Reader()\<close> creates and whose sizes do not affect what it holds, is
  given to the reader at once.
\<close>

definition WithSource :: "bufio_Reader \<Rightarrow> Reader" where
  "WithSource source =
     \<lparr>reader = source, pos = startPosition, buffer = NewWithSize, transformers = []\<rparr>"

definition WithNormalizeNewline :: "Reader \<Rightarrow> Reader" where
  "WithNormalizeNewline b = b\<lparr>transformers := transformers b @ [normalizeNewline]\<rparr>"

definition WithUnicodeEscape :: "Reader \<Rightarrow> Reader" where
  "WithUnicodeEscape b = b\<lparr>transformers := transformers b @ [unicodeEscape]\<rparr>"

definition WithRuneEscape :: "(rune \<rightharpoonup> rune) \<Rightarrow> Reader \<Rightarrow> Reader" where
  "WithRuneEscape escapes b = b\<lparr>transformers := transformers b @ [runeEscape escapes]\<rparr>"

subsection \<open>Position tracking and raw reads\<close>

definition step :: "int \<Rightarrow> Reader \<Rightarrow> Position \<times> Reader" where
  "step i r =
     (let p = pos r;
          col = Col p + i
      in if col < 0
         then (p, r\<lparr>pos := \<lparr>Row = (if Row p > 0 then Row p - 1 else Row p), Col = 0\<rparr>\<rparr>)
         else (p, r\<lparr>pos := \<lparr>Row = Row p, Col = col\<rparr>\<rparr>))"

definition readRune :: "Reader \<Rightarrow> (src_error + rune) \<times> Position \<times> Reader" where
  "readRune r =
     (case ReadRune (reader r) of
        (Inl e, b) \<Rightarrow> (Inl e, pos r, r\<lparr>reader := b\<rparr>)
      | (Inr ru, b) \<Rightarrow>
          (case step 1 (r\<lparr>reader := b\<rparr>) of (p, r') \<Rightarrow> (Inr ru, p, r')))"

definition unreadRune :: "Reader \<Rightarrow> gostring option \<times> Reader" where
  "unreadRune r =
     (case UnreadRune (reader r) of
        (err, b) \<Rightarrow> (err, snd (step (- 1) (r\<lparr>reader := b\<rparr>))))"

definition newline :: "Reader \<Rightarrow> Reader" where
  "newline r = r\<lparr>pos := \<lparr>Row = Row (pos r) + 1, Col = Col startPosition\<rparr>\<rparr>"

subsection \<open>Transformers\<close>

definition normalizeNewline_Transform :: "Reader \<Rightarrow> Char \<Rightarrow> (error + Char) \<times> Reader" where
  "normalizeNewline_Transform rd c =
     (if Rune c = 0x0A then (Inr c, newline rd)
      else if Rune c = 0x0D then
        (let c' = c\<lparr>Rune := 0x0A\<rparr>;
             rd1 = newline rd
         in case readRune rd1 of
              (Inl e, p, rd2) \<Rightarrow>
                if e = io_EOF then (Inr c', rd2)
                else (Inl (PositionalError (Row p) (Col p)
                             (str ''error reading rune from source: '' @ Error e)), rd2)
            | (Inr r, p, rd2) \<Rightarrow>
                if r = 0x0A then (Inr c', snd (step (- 1) rd2))
                else (case unreadRune rd2 of
                        (Some m, rd3) \<Rightarrow>
                          (Inl (PositionalError (Row p) (Col p)
                                  (str ''error unreading rune from source: '' @ m)), rd3)
                      | (None, rd3) \<Rightarrow> (Inr c', rd3)))
      else (Inr c, rd))"

text \<open>
  The standard library's \<^verbatim>\<open>strconv.Unquote\<close>, on the only literals this package gives it:
  a single-quoted \<^verbatim>\<open>'\uXXXX'\<close> of four runes between \<^verbatim>\<open>'\u\<close> and \<^verbatim>\<open>'\<close>. It takes the
  \<^verbatim>\<open>\u\<close> branch of \<^verbatim>\<open>UnquoteChar\<close>: each of the four must be a hexadecimal digit
  (\<^verbatim>\<open>unhex\<close>), the value \<^verbatim>\<open>v = v<<4 | x\<close> must be a valid rune (\<^verbatim>\<open>utf8.ValidRune\<close>: not a
  surrogate half), and everything else is \<^verbatim>\<open>ErrSyntax\<close>, whose text is "invalid syntax".
\<close>

definition unhex :: "rune \<Rightarrow> rune option" where
  "unhex c =
     (if 0x30 \<le> c \<and> c \<le> 0x39 then Some (c - 0x30)
      else if 0x61 \<le> c \<and> c \<le> 0x66 then Some (c - 0x61 + 10)
      else if 0x41 \<le> c \<and> c \<le> 0x46 then Some (c - 0x41 + 10)
      else None)"

definition ValidRune :: "rune \<Rightarrow> bool" where
  "ValidRune r = ((0 \<le> r \<and> r < 0xD800) \<or> (0xDFFF < r \<and> r \<le> 0x10FFFF))"

definition ErrSyntax :: gostring where
  "ErrSyntax = str ''invalid syntax''"

fun unhex_all :: "rune list \<Rightarrow> rune \<Rightarrow> rune option" where
  "unhex_all [] v = Some v"
| "unhex_all (c # cs) v =
     (case unhex c of None \<Rightarrow> None | Some x \<Rightarrow> unhex_all cs (v * 16 + x))"

definition Unquote :: "gostring \<Rightarrow> gostring + gostring" where
  "Unquote s =
     (case s of
        [q, b, u, h1, h2, h3, h4, q'] \<Rightarrow>
          if q = 0x27 \<and> b = 0x5C \<and> u = 0x75 \<and> q' = 0x27 then
            (case unhex_all [h1, h2, h3, h4] 0 of
               None \<Rightarrow> Inl ErrSyntax
             | Some v \<Rightarrow> if ValidRune v then Inr [v] else Inl ErrSyntax)
          else Inl ErrSyntax
      | _ \<Rightarrow> Inl ErrSyntax)"

text \<open>
  The loop \<^verbatim>\<open>for i := 1; i <= 4; i++\<close> of \<^verbatim>\<open>unicodeEscape.Transform\<close>, by the number of
  iterations still to run; \<open>sb\<close> is the string builder.
\<close>

fun readDigits :: "nat \<Rightarrow> Char \<Rightarrow> gostring \<Rightarrow> Reader \<Rightarrow> (error + gostring) \<times> Reader" where
  "readDigits 0 c sb rd = (Inr sb, rd)"
| "readDigits (Suc n) c sb rd =
     (case readRune rd of
        (Inl e, p, rd') \<Rightarrow>
          if e = io_EOF
          then (Inl (PositionalError (Row (Pos c)) (Col (Pos c))
                       (str ''unexpected EOF reading unicode escape'')), rd')
          else (Inl (PositionalError (Row (Pos c)) (Col (Pos c))
                       (str ''error reading rune from source: '' @ Error e)), rd')
      | (Inr r, p, rd') \<Rightarrow> readDigits n c (sb @ [r]) rd')"

definition unicodeEscape_Transform :: "Reader \<Rightarrow> Char \<Rightarrow> (error + Char) \<times> Reader" where
  "unicodeEscape_Transform rd c =
     (if Rune c \<noteq> 0x5C then (Inr c, rd)
      else case readRune rd of
        (Inl e, p, rd1) \<Rightarrow>
          if e = io_EOF
          then (Inl (PositionalError (Row p) (Col p)
                       (str ''unexpected EOF reading unicode escape'')), rd1)
          else (Inl (PositionalError (Row p) (Col p)
                       (str ''error reading rune from source: '' @ Error e)), rd1)
      | (Inr r, p, rd1) \<Rightarrow>
          if r \<noteq> 0x75 then
            (case unreadRune rd1 of
               (Some m, rd2) \<Rightarrow>
                 (Inl (PositionalError (Row p) (Col p)
                         (str ''error unreading rune from source: '' @ m)), rd2)
             | (None, rd2) \<Rightarrow> (Inr c, rd2))
          else
            (case readDigits (Suc (Suc (Suc (Suc 0)))) c [0x27, 0x5C, 0x75] rd1 of
               (Inl e, rd2) \<Rightarrow> (Inl e, rd2)
             | (Inr sb, rd2) \<Rightarrow>
                 (let src = sb @ [0x27]
                  in case Unquote src of
                       Inl err \<Rightarrow>
                         (Inl (PositionalError (Row (Pos c)) (Col (Pos c))
                                 (str ''error parsing unicode escaped rune '' @ src
                                    @ str '': '' @ err)), rd2)
                     | Inr res \<Rightarrow>
                         (case res of
                            [] \<Rightarrow> (Inl Panic, rd2)
                          | v # _ \<Rightarrow> (Inr (c\<lparr>Rune := v\<rparr>), rd2)))))"

definition runeEscape_Transform ::
  "(rune \<rightharpoonup> rune) \<Rightarrow> Reader \<Rightarrow> Char \<Rightarrow> (error + Char) \<times> Reader" where
  "runeEscape_Transform escapes rd c =
     (if Rune c \<noteq> 0x5C then (Inr c, rd)
      else case readRune rd of
        (Inl e, p, rd1) \<Rightarrow>
          if e = io_EOF
          then (Inl (PositionalError (Row (Pos c)) (Col (Pos c))
                       (str ''unexpected EOF reading rune escape'')), rd1)
          else (Inl (PositionalError (Row (Pos c)) (Col (Pos c))
                       (str ''error reading rune from source: '' @ Error e)), rd1)
      | (Inr from, p, rd1) \<Rightarrow>
          (case escapes from of
             Some to \<Rightarrow> (Inr (c\<lparr>Rune := to, Escaped := True\<rparr>), rd1)
           | None \<Rightarrow> (Inr (c\<lparr>Rune := from, Escaped := True\<rparr>), rd1)))"

fun Transform :: "transformer \<Rightarrow> Reader \<Rightarrow> Char \<Rightarrow> (error + Char) \<times> Reader" where
  "Transform normalizeNewline rd c = normalizeNewline_Transform rd c"
| "Transform unicodeEscape rd c = unicodeEscape_Transform rd c"
| "Transform (runeEscape escapes) rd c = runeEscape_Transform escapes rd c"

subsection \<open>Reader operations\<close>

text \<open>The loop \<^verbatim>\<open>for _, t := range r.transformers\<close> of \<^verbatim>\<open>bufferChar\<close>.\<close>

fun applyTransformers :: "transformer list \<Rightarrow> Reader \<Rightarrow> Char \<Rightarrow> (error + Char) \<times> Reader" where
  "applyTransformers [] r c = (Inr c, r)"
| "applyTransformers (t # ts) r c =
     (case Transform t r c of
        (Inl e, r') \<Rightarrow> (Inl e, r')
      | (Inr c', r') \<Rightarrow> applyTransformers ts r' c')"

definition bufferChar :: "Reader \<Rightarrow> error option \<times> Reader" where
  "bufferChar r =
     (case readRune r of
        (Inl e, p, r1) \<Rightarrow>
          if e = io_EOF then (Some EOF, r1)
          else (Some (PositionalError (Row p) (Col p)
                        (str ''error reading rune from source: '' @ Error e)), r1)
      | (Inr ru, p, r1) \<Rightarrow>
          (case applyTransformers (transformers r1) r1 \<lparr>Rune = ru, Pos = p, Escaped = False\<rparr> of
             (Inl e, r2) \<Rightarrow> (Some e, r2)
           | (Inr c, r2) \<Rightarrow> (None, r2\<lparr>buffer := Buffer_Write c (buffer r2)\<rparr>)))"

definition Next :: "Reader \<Rightarrow> (error + Char) \<times> Reader" where
  "Next r =
     (case (if Buffered (buffer r) = 0 then bufferChar r else (None, r)) of
        (Some e, r') \<Rightarrow> (Inl e, r')
      | (None, r') \<Rightarrow>
          (case Buffer_Next (buffer r') of
             Some c \<Rightarrow> (Inr c, r')
           | None \<Rightarrow> (Inl (Errorf (str ''unexpected empty buffer'')), r')))"

definition Consume :: "Reader \<Rightarrow> Reader" where
  "Consume r = r\<lparr>buffer := Buffer_Consume (buffer r)\<rparr>"

definition State :: "Reader \<Rightarrow> State" where
  "State r = \<lparr>bufState = Buffer_State (buffer r)\<rparr>"

definition Rollback :: "State \<Rightarrow> Reader \<Rightarrow> error option \<times> Reader" where
  "Rollback state r =
     (case Buffer_Rollback (bufState state) (buffer r) of
        (err, b) \<Rightarrow> (err, r\<lparr>buffer := b\<rparr>))"

definition Commit :: "Reader \<Rightarrow> Reader" where
  "Commit r = r\<lparr>buffer := Buffer_Commit (buffer r)\<rparr>"

section \<open>Runs, builders and invariants used by the theorems\<close>

text \<open>
  The operations of the test driver (\<^verbatim>\<open>opNext\<close>, \<^verbatim>\<open>opConsume\<close>): a run performs them in
  order and collects what each \<^verbatim>\<open>Next\<close> returned.
\<close>

datatype op = opNext | opConsume

fun run :: "op list \<Rightarrow> Reader \<Rightarrow> (error + Char) list \<times> Reader" where
  "run [] r = ([], r)"
| "run (opNext # ops) r =
     (case Next r of (res, r') \<Rightarrow> (case run ops r' of (rs, r'') \<Rightarrow> (res # rs, r'')))"
| "run (opConsume # ops) r = run ops (Consume r)"

text \<open>
  A run follows the next/consume pattern when every \<^verbatim>\<open>Next\<close> returns a Char and every
  \<^verbatim>\<open>Consume\<close> is called with an element pending.
\<close>

fun clean :: "op list \<Rightarrow> Reader \<Rightarrow> bool" where
  "clean [] r = True"
| "clean (opNext # ops) r =
     (case Next r of (Inl e, r') \<Rightarrow> False | (Inr c, r') \<Rightarrow> clean ops r')"
| "clean (opConsume # ops) r = (0 < Buffered (buffer r) \<and> clean ops (Consume r))"

text \<open>
  \<^verbatim>\<open>Builder{}.WithSource(source)\<close> followed by one \<^verbatim>\<open>With...\<close> call per transformer, in
  order, and \<^verbatim>\<open>Reader()\<close>. The source is given by its runes and the condition it reports
  once they are used up.
\<close>

fun install :: "Reader \<Rightarrow> transformer \<Rightarrow> Reader" where
  "install b normalizeNewline = WithNormalizeNewline b"
| "install b unicodeEscape = WithUnicodeEscape b"
| "install b (runeEscape escapes) = WithRuneEscape escapes b"

definition build :: "transformer list \<Rightarrow> rune list \<Rightarrow> src_error \<Rightarrow> Reader" where
  "build ts rs e = foldl install (WithSource (NewReader rs e)) ts"

text \<open>The states a reader can be in: built, then driven through its public methods.\<close>

inductive reachable :: "Reader \<Rightarrow> bool" where
  built: "reachable (build ts rs e)"
| after_Next: "reachable r \<Longrightarrow> reachable (snd (Next r))"
| after_Consume: "reachable r \<Longrightarrow> reachable (Consume r)"
| after_Rollback: "reachable r \<Longrightarrow> reachable (snd (Rollback s r))"
| after_Commit: "reachable r \<Longrightarrow> reachable (Commit r)"

text \<open>Row-major order of positions: a later row, or the same row and a later column.\<close>

definition pos_lt :: "Position \<Rightarrow> Position \<Rightarrow> bool" where
  "pos_lt p q = (Row p < Row q \<or> (Row p = Row q \<and> Col p < Col q))"

definition pos_le :: "Position \<Rightarrow> Position \<Rightarrow> bool" where
  "pos_le p q = (Row p < Row q \<or> (Row p = Row q \<and> Col p \<le> Col q))"

text \<open>
  What holds of every reachable reader: the position tracker is at row and column 1 or
  later, and the read cursor is inside the buffer.
\<close>

definition wf :: "Reader \<Rightarrow> bool" where
  "wf r = (1 \<le> Row (pos r) \<and> 1 \<le> Col (pos r) \<and>
           cursor (buffer r) \<le> length (elems (buffer r)))"

text \<open>
  The buffered Chars are in strictly increasing position, all before the tracker.
\<close>

definition ordered :: "Reader \<Rightarrow> bool" where
  "ordered r = (sorted_wrt pos_lt (map Pos (elems (buffer r))) \<and>
                list_all (\<lambda>c. pos_lt (Pos c) (pos r)) (elems (buffer r)))"

text \<open>
  What a raw read or a transformer may do to a reader whose position is at row and
  column 1 or later: it leaves the buffer and the transformers alone, and the position
  tracker does not move backwards and stays at row and column 1 or later.
\<close>

definition advances :: "Reader \<Rightarrow> Reader \<Rightarrow> bool" where
  "advances r r' = (buffer r' = buffer r \<and> transformers r' = transformers r \<and>
                    pos_le (pos r) (pos r') \<and> 1 \<le> Row (pos r') \<and> 1 \<le> Col (pos r'))"

text \<open>Hexadecimal digits and their values, as the spec reads a \<^verbatim>\<open>\uXXXX\<close> literal.\<close>

definition is_hex_digit :: "rune \<Rightarrow> bool" where
  "is_hex_digit c = ((0x30 \<le> c \<and> c \<le> 0x39) \<or> (0x41 \<le> c \<and> c \<le> 0x46) \<or> (0x61 \<le> c \<and> c \<le> 0x66))"

definition digit_value :: "rune \<Rightarrow> int" where
  "digit_value c =
     (if c \<le> 0x39 then c - 0x30 else if c \<le> 0x46 then c - 0x41 + 10 else c - 0x61 + 10)"

definition code_point :: "rune \<Rightarrow> rune \<Rightarrow> rune \<Rightarrow> rune \<Rightarrow> rune" where
  "code_point h1 h2 h3 h4 =
     4096 * digit_value h1 + 256 * digit_value h2 + 16 * digit_value h3 + digit_value h4"

definition is_surrogate :: "rune \<Rightarrow> bool" where
  "is_surrogate v = (0xD800 \<le> v \<and> v \<le> 0xDFFF)"

text \<open>The readers of the test scenarios.\<close>

definition single_a_reader :: Reader where
  \<comment> \<open>source \<^verbatim>\<open>a\<close>, no transformer\<close>
  "single_a_reader = build [] [0x61] io_EOF"


definition unicode_reader :: Reader where
  \<comment> \<open>source \<^verbatim>\<open>a\u0058\<close>, unicode escape\<close>
  "unicode_reader = build [unicodeEscape] [0x61, 0x5C, 0x75, 0x30, 0x30, 0x35, 0x38] io_EOF"

definition surrogate_reader :: Reader where
  \<comment> \<open>source \<^verbatim>\<open>\uD800\<close>, unicode escape\<close>
  "surrogate_reader = build [unicodeEscape] [0x5C, 0x75, 0x44, 0x38, 0x30, 0x30] io_EOF"

definition bad_hex_reader :: Reader where
  \<comment> \<open>source \<^verbatim>\<open>a\u005X\<close>, unicode escape\<close>
  "bad_hex_reader = build [unicodeEscape] [0x61, 0x5C, 0x75, 0x30, 0x30, 0x35, 0x58] io_EOF"

definition bad_hex_first_reader :: Reader where
  \<comment> \<open>source \<^verbatim>\<open>\u005Xa\<close>, unicode escape\<close>
  "bad_hex_first_reader = build [unicodeEscape] [0x5C, 0x75, 0x30, 0x30, 0x35, 0x58, 0x61] io_EOF"

definition pushback_reader :: Reader where
  \<comment> \<open>source \<^verbatim>\<open>a\X\<close>, unicode escape\<close>
  "pushback_reader = build [unicodeEscape] [0x61, 0x5C, 0x58] io_EOF"

definition rune_escape_reader :: Reader where
  \<comment> \<open>source \<^verbatim>\<open>a\a\b c\<close>, rune escape with the map a to x, b to y\<close>
  "rune_escape_reader =
     build [runeEscape [0x61 \<mapsto> 0x78, 0x62 \<mapsto> 0x79]]
       [0x61, 0x5C, 0x61, 0x5C, 0x62, 0x20, 0x63] io_EOF"

section \<open>Basic facts\<close>

lemmas buffer_defs = Buffered_def Buffer_Write_def Buffer_Next_def Buffer_Consume_def
  Buffer_State_def Buffer_Rollback_def Buffer_Commit_def

lemmas raw_defs = readRune_def ReadRune_def unreadRune_def UnreadRune_def step_def newline_def
  startPosition_def Let_def

lemma readRune_cons:
  "runes (reader r) = x # xs \<Longrightarrow> 0 \<le> Col (pos r) \<Longrightarrow>
   readRune r = (Inr x, pos r,
     r\<lparr>reader := (reader r)\<lparr>runes := xs, lastRune := Some x\<rparr>,
       pos := \<lparr>Row = Row (pos r), Col = Col (pos r) + 1\<rparr>\<rparr>)"
  by (simp add: raw_defs)

lemma readRune_nil:
  "runes (reader r) = [] \<Longrightarrow>
   readRune r = (Inl (atEnd (reader r)), pos r, r\<lparr>reader := (reader r)\<lparr>lastRune := None\<rparr>\<rparr>)"
  by (simp add: raw_defs)

lemma build_eq:
  "build ts rs e =
     \<lparr>reader = NewReader rs e, pos = startPosition, buffer = NewWithSize, transformers = ts\<rparr>"
proof -
  have "foldl install b ts = b\<lparr>transformers := transformers b @ ts\<rparr>" for b
  proof (induction ts arbitrary: b)
    case Nil
    show ?case by simp
  next
    case (Cons t ts)
    show ?case
      by (cases t)
        (simp_all add: Cons.IH WithNormalizeNewline_def WithUnicodeEscape_def WithRuneEscape_def)
  qed
  then show ?thesis by (simp add: build_def WithSource_def)
qed

lemmas exec_defs = build_eq NewReader_def NewWithSize_def Next_def Consume_def bufferChar_def
  raw_defs buffer_defs normalizeNewline_Transform_def unicodeEscape_Transform_def
  runeEscape_Transform_def Unquote_def unhex_def ValidRune_def State_def Rollback_def Commit_def
  wf_def

section \<open>C6: rune escape\<close>

text \<open>
  Claim C6. With the rune-escape transformer installed with mapping \<open>m\<close>, a backslash
  followed by a rune \<open>k\<close> is emitted as one Char at the position of the backslash, with
  \<open>Escaped\<close> set, whose rune is \<open>m k\<close> when \<open>k\<close> is a key of \<open>m\<close> and \<open>k\<close> itself
  otherwise; both raw runes are consumed. When the stream ends right after the backslash,
  \<^verbatim>\<open>Next\<close> returns "unexpected EOF reading rune escape" at the position of the backslash.
  The source \<^verbatim>\<open>a\a\b c\<close> with the map a to x, b to y yields a at (1,1) unescaped, x at
  (1,2) escaped, y at (1,4) escaped and a space at (1,6) unescaped.
\<close>

theorem runeEscape_emits:
  "(transformers r = [runeEscape m] \<and> wf r \<and> Buffered (buffer r) = 0 \<and>
      runes (reader r) = 0x5C # k # rest \<longrightarrow>
    Next r = (Inr \<lparr>Rune = (case m k of Some to \<Rightarrow> to | None \<Rightarrow> k), Pos = pos r, Escaped = True\<rparr>,
       r\<lparr>reader := (reader r)\<lparr>runes := rest, lastRune := Some k\<rparr>,
         pos := \<lparr>Row = Row (pos r), Col = Col (pos r) + 2\<rparr>,
         buffer := Buffer_Write
           \<lparr>Rune = (case m k of Some to \<Rightarrow> to | None \<Rightarrow> k), Pos = pos r, Escaped = True\<rparr>
           (buffer r)\<rparr>))
   \<and> (transformers r = [runeEscape m] \<and> wf r \<and> Buffered (buffer r) = 0 \<and>
      runes (reader r) = [0x5C] \<and> atEnd (reader r) = io_EOF \<longrightarrow>
    fst (Next r) = Inl (PositionalError (Row (pos r)) (Col (pos r))
                          (str ''unexpected EOF reading rune escape'')))
   \<and> fst (run [opNext, opConsume, opNext, opConsume, opNext, opConsume, opNext, opConsume]
            rune_escape_reader) =
       [Inr \<lparr>Rune = 0x61, Pos = \<lparr>Row = 1, Col = 1\<rparr>, Escaped = False\<rparr>,
        Inr \<lparr>Rune = 0x78, Pos = \<lparr>Row = 1, Col = 2\<rparr>, Escaped = True\<rparr>,
        Inr \<lparr>Rune = 0x79, Pos = \<lparr>Row = 1, Col = 4\<rparr>, Escaped = True\<rparr>,
        Inr \<lparr>Rune = 0x20, Pos = \<lparr>Row = 1, Col = 6\<rparr>, Escaped = False\<rparr>]"
proof (intro conjI impI)
  assume "transformers r = [runeEscape m] \<and> wf r \<and> Buffered (buffer r) = 0 \<and>
      runes (reader r) = 0x5C # k # rest"
  then show "Next r = (Inr \<lparr>Rune = (case m k of Some to \<Rightarrow> to | None \<Rightarrow> k), Pos = pos r, Escaped = True\<rparr>,
       r\<lparr>reader := (reader r)\<lparr>runes := rest, lastRune := Some k\<rparr>,
         pos := \<lparr>Row = Row (pos r), Col = Col (pos r) + 2\<rparr>,
         buffer := Buffer_Write
           \<lparr>Rune = (case m k of Some to \<Rightarrow> to | None \<Rightarrow> k), Pos = pos r, Escaped = True\<rparr>
           (buffer r)\<rparr>)"
    by (simp add: Next_def bufferChar_def wf_def readRune_cons runeEscape_Transform_def
        Buffered_def Buffer_Next_def Buffer_Write_def nth_append split: option.split)
next
  assume "transformers r = [runeEscape m] \<and> wf r \<and> Buffered (buffer r) = 0 \<and>
      runes (reader r) = [0x5C] \<and> atEnd (reader r) = io_EOF"
  then show "fst (Next r) = Inl (PositionalError (Row (pos r)) (Col (pos r))
                          (str ''unexpected EOF reading rune escape''))"
    by (simp add: Next_def bufferChar_def wf_def readRune_cons readRune_nil runeEscape_Transform_def)
next
  show "fst (run [opNext, opConsume, opNext, opConsume, opNext, opConsume, opNext, opConsume]
            rune_escape_reader) =
       [Inr \<lparr>Rune = 0x61, Pos = \<lparr>Row = 1, Col = 1\<rparr>, Escaped = False\<rparr>,
        Inr \<lparr>Rune = 0x78, Pos = \<lparr>Row = 1, Col = 2\<rparr>, Escaped = True\<rparr>,
        Inr \<lparr>Rune = 0x79, Pos = \<lparr>Row = 1, Col = 4\<rparr>, Escaped = True\<rparr>,
        Inr \<lparr>Rune = 0x20, Pos = \<lparr>Row = 1, Col = 6\<rparr>, Escaped = False\<rparr>]"
    by (simp add: rune_escape_reader_def exec_defs)
qed

theorem runeEscape_emits_witness:
  "transformers (build [runeEscape [0x61 \<mapsto> 0x78]] [0x5C, 0x61, 0x20] io_EOF) = [runeEscape [0x61 \<mapsto> 0x78]]
   \<and> wf (build [runeEscape [0x61 \<mapsto> 0x78]] [0x5C, 0x61, 0x20] io_EOF)
   \<and> Buffered (buffer (build [runeEscape [0x61 \<mapsto> 0x78]] [0x5C, 0x61, 0x20] io_EOF)) = 0
   \<and> runes (reader (build [runeEscape [0x61 \<mapsto> 0x78]] [0x5C, 0x61, 0x20] io_EOF)) = [0x5C, 0x61, 0x20]
   \<and> fst (Next (build [runeEscape [0x61 \<mapsto> 0x78]] [0x5C, 0x61, 0x20] io_EOF)) =
       Inr \<lparr>Rune = 0x78, Pos = \<lparr>Row = 1, Col = 1\<rparr>, Escaped = True\<rparr>
   \<and> wf (build [runeEscape [0x61 \<mapsto> 0x78]] [0x5C] io_EOF)
   \<and> Buffered (buffer (build [runeEscape [0x61 \<mapsto> 0x78]] [0x5C] io_EOF)) = 0
   \<and> runes (reader (build [runeEscape [0x61 \<mapsto> 0x78]] [0x5C] io_EOF)) = [0x5C]
   \<and> atEnd (reader (build [runeEscape [0x61 \<mapsto> 0x78]] [0x5C] io_EOF)) = io_EOF
   \<and> fst (Next (build [runeEscape [0x61 \<mapsto> 0x78]] [0x5C] io_EOF)) =
       Inl (PositionalError 1 1 (str ''unexpected EOF reading rune escape''))"
  using runeEscape_emits [of "build [runeEscape [0x61 \<mapsto> 0x78]] [0x5C, 0x61, 0x20] io_EOF"
      "[0x61 \<mapsto> 0x78]" "0x61" "[0x20]"]
    runeEscape_emits [of "build [runeEscape [0x61 \<mapsto> 0x78]] [0x5C] io_EOF" "[0x61 \<mapsto> 0x78]"]
  by (simp add: build_eq NewReader_def NewWithSize_def startPosition_def wf_def Buffered_def)

section \<open>Repeated calls of Next\<close>

lemma Next_again: "Next r = (Inr c, r') \<Longrightarrow> Next r' = (Inr c, r')"
  by (auto simp: Next_def Buffered_def Buffer_Next_def split: if_splits prod.splits option.splits)

lemma Next_repeat: "Next r = (x, r) \<Longrightarrow> run (replicate n opNext) r = (replicate n x, r)"
  by (induction n) simp_all

lemma Next_EOF:
  "Buffered (buffer r) = 0 \<Longrightarrow> runes (reader r) = [] \<Longrightarrow> atEnd (reader r) = io_EOF \<Longrightarrow>
   Next r = (Inl EOF, r\<lparr>reader := (reader r)\<lparr>lastRune := None\<rparr>\<rparr>)"
  by (simp add: Next_def bufferChar_def readRune_nil)

lemma repeat_Chars_same:
  "Inr c1 \<in> set (fst (run (replicate n opNext) r)) \<Longrightarrow>
   Inr c2 \<in> set (fst (run (replicate n opNext) r)) \<Longrightarrow> c1 = c2"
proof (induction n arbitrary: r)
  case 0
  then show ?case by simp
next
  case (Suc n)
  obtain x r' where nx: "Next r = (x, r')" by (cases "Next r") auto
  show ?case
  proof (cases x)
    case (Inl e)
    with Suc.prems nx have "Inr c1 \<in> set (fst (run (replicate n opNext) r'))"
      "Inr c2 \<in> set (fst (run (replicate n opNext) r'))"
      by (auto split: prod.splits)
    then show ?thesis by (rule Suc.IH)
  next
    case (Inr c)
    with nx have "run (replicate n opNext) r' = (replicate n (Inr c), r')"
      by (intro Next_repeat Next_again [of r]) simp
    with Suc.prems nx Inr show ?thesis
      by (auto split: if_splits)
  qed
qed

section \<open>C2: peek idempotence\<close>

text \<open>
  Claim C2. From any reader state (reachable or not), once \<^verbatim>\<open>Next\<close> has returned a Char,
  any number of consecutive calls of \<^verbatim>\<open>Next\<close> with no \<^verbatim>\<open>Consume\<close> in between return that
  same Char, the reader state does not change after the first call, and the Char is
  still the front element of the lookahead buffer. Hence all the Chars that any number
  of consecutive calls of \<^verbatim>\<open>Next\<close> return are one and the same Char.
\<close>

theorem Next_peek_idempotent:
  "(Next r = (Inr c, r') \<longrightarrow>
      run (replicate (Suc n) opNext) r = (replicate (Suc n) (Inr c), r') \<and>
      Buffer_Next (buffer r') = Some c)
   \<and> (Inr c1 \<in> set (fst (run (replicate n opNext) r)) \<and>
      Inr c2 \<in> set (fst (run (replicate n opNext) r)) \<longrightarrow> c1 = c2)"
proof (intro conjI impI)
  assume h: "Next r = (Inr c, r')"
  from Next_repeat [OF Next_again [OF h], of n] h
  show "run (replicate (Suc n) opNext) r = (replicate (Suc n) (Inr c), r')"
    by simp
  from h show "Buffer_Next (buffer r') = Some c"
    by (auto simp: Next_def split: if_splits prod.splits option.splits)
next
  assume "Inr c1 \<in> set (fst (run (replicate n opNext) r)) \<and>
      Inr c2 \<in> set (fst (run (replicate n opNext) r))"
  then show "c1 = c2"
    using repeat_Chars_same [of c1 n r c2] by simp
qed

theorem Next_peek_idempotent_witness:
  "fst (Next single_a_reader) = Inr \<lparr>Rune = 0x61, Pos = \<lparr>Row = 1, Col = 1\<rparr>, Escaped = False\<rparr>
   \<and> fst (run (replicate (Suc 2) opNext) single_a_reader) =
       replicate (Suc 2) (Inr \<lparr>Rune = 0x61, Pos = \<lparr>Row = 1, Col = 1\<rparr>, Escaped = False\<rparr>)
   \<and> Buffer_Next (buffer (snd (Next single_a_reader))) =
       Some \<lparr>Rune = 0x61, Pos = \<lparr>Row = 1, Col = 1\<rparr>, Escaped = False\<rparr>
   \<and> Inr \<lparr>Rune = 0x61, Pos = \<lparr>Row = 1, Col = 7\<rparr>, Escaped = False\<rparr>
       \<in> set (fst (run (replicate 3 opNext) bad_hex_first_reader))"
proof -
  define r' where "r' = snd (Next single_a_reader)"
  have f: "fst (Next single_a_reader) =
      Inr \<lparr>Rune = 0x61, Pos = \<lparr>Row = 1, Col = 1\<rparr>, Escaped = False\<rparr>"
    by (simp add: single_a_reader_def exec_defs)
  then have h: "Next single_a_reader =
      (Inr \<lparr>Rune = 0x61, Pos = \<lparr>Row = 1, Col = 1\<rparr>, Escaped = False\<rparr>, r')"
    unfolding r'_def by (metis prod.collapse)
  have m: "Inr \<lparr>Rune = 0x61, Pos = \<lparr>Row = 1, Col = 7\<rparr>, Escaped = False\<rparr>
       \<in> set (fst (run (replicate 3 opNext) bad_hex_first_reader))"
    by (simp add: bad_hex_first_reader_def exec_defs eval_nat_numeral)
  note T = Next_peek_idempotent [where r = single_a_reader and r' = r' and n = 2
      and c = "\<lparr>Rune = 0x61, Pos = \<lparr>Row = 1, Col = 1\<rparr>, Escaped = False\<rparr>"]
  from T [THEN conjunct1, THEN mp, OF h]
  have a: "fst (run (replicate (Suc 2) opNext) single_a_reader) =
       replicate (Suc 2) (Inr \<lparr>Rune = 0x61, Pos = \<lparr>Row = 1, Col = 1\<rparr>, Escaped = False\<rparr>)"
    and b: "Buffer_Next (buffer r') =
       Some \<lparr>Rune = 0x61, Pos = \<lparr>Row = 1, Col = 1\<rparr>, Escaped = False\<rparr>"
    by simp_all
  from f a b m show ?thesis
    unfolding r'_def by blast
qed

section \<open>C8: end of stream repeats\<close>

text \<open>
  Claim C8. When the source is exhausted and nothing is pending in the lookahead buffer,
  \<^verbatim>\<open>Next\<close> returns the unwrapped end-of-stream condition \<open>EOF\<close>, and so does every later
  call of \<^verbatim>\<open>Next\<close>: the buffer, the position tracker and the transformers stay as they
  were (the reader has no error state; only the source's unread slot is cleared). The
  source \<^verbatim>\<open>a\<close> gives the Char a at (1,1) three times, and after \<^verbatim>\<open>Consume\<close> gives \<open>EOF\<close>
  on every call.
\<close>

theorem EOF_repeats:
  "(Buffered (buffer r) = 0 \<and> runes (reader r) = [] \<and> atEnd (reader r) = io_EOF \<longrightarrow>
      run (replicate (Suc n) opNext) r =
        (replicate (Suc n) (Inl EOF), r\<lparr>reader := (reader r)\<lparr>lastRune := None\<rparr>\<rparr>))
   \<and> fst (run [opNext, opNext, opNext, opConsume, opNext, opNext, opNext] single_a_reader) =
       [Inr \<lparr>Rune = 0x61, Pos = \<lparr>Row = 1, Col = 1\<rparr>, Escaped = False\<rparr>,
        Inr \<lparr>Rune = 0x61, Pos = \<lparr>Row = 1, Col = 1\<rparr>, Escaped = False\<rparr>,
        Inr \<lparr>Rune = 0x61, Pos = \<lparr>Row = 1, Col = 1\<rparr>, Escaped = False\<rparr>,
        Inl EOF, Inl EOF, Inl EOF]"
proof (intro conjI impI)
  assume h: "Buffered (buffer r) = 0 \<and> runes (reader r) = [] \<and> atEnd (reader r) = io_EOF"
  let ?r' = "r\<lparr>reader := (reader r)\<lparr>lastRune := None\<rparr>\<rparr>"
  have first: "Next r = (Inl EOF, ?r')"
    using h by (simp add: Next_EOF)
  have "Next ?r' = (Inl EOF, ?r')"
    using h Next_EOF [of ?r'] by simp
  then have "run (replicate n opNext) ?r' = (replicate n (Inl EOF), ?r')"
    by (rule Next_repeat)
  with first show "run (replicate (Suc n) opNext) r = (replicate (Suc n) (Inl EOF), ?r')"
    by simp
next
  show "fst (run [opNext, opNext, opNext, opConsume, opNext, opNext, opNext] single_a_reader) =
       [Inr \<lparr>Rune = 0x61, Pos = \<lparr>Row = 1, Col = 1\<rparr>, Escaped = False\<rparr>,
        Inr \<lparr>Rune = 0x61, Pos = \<lparr>Row = 1, Col = 1\<rparr>, Escaped = False\<rparr>,
        Inr \<lparr>Rune = 0x61, Pos = \<lparr>Row = 1, Col = 1\<rparr>, Escaped = False\<rparr>,
        Inl EOF, Inl EOF, Inl EOF]"
    by (simp add: single_a_reader_def exec_defs)
qed

theorem EOF_repeats_witness:
  "Buffered (buffer (build [] [] io_EOF)) = 0
   \<and> runes (reader (build [] [] io_EOF)) = []
   \<and> atEnd (reader (build [] [] io_EOF)) = io_EOF
   \<and> run (replicate (Suc 3) opNext) (build [] [] io_EOF) =
       (replicate (Suc 3) (Inl EOF), build [] [] io_EOF)"
  using EOF_repeats [of "build [] [] io_EOF" 3]
  by (simp add: build_eq NewReader_def NewWithSize_def Buffered_def)

section \<open>C7: push-back by the unicode escape\<close>

text \<open>
  Claim C7. When the unicode-escape transformer is given a backslash and the next raw
  rune is not \<^verbatim>\<open>u\<close>, it emits the backslash Char unchanged and pushes the rune back: the
  runes left in the source and the position tracker are what they were before the
  transformer ran (only the source's unread slot is used up), and the next raw read
  returns the pushed-back rune at its original position, exactly as a read without the
  transformer would have. The source \<^verbatim>\<open>a\X\<close> yields a at (1,1), the backslash at (1,2),
  X at (1,3) and then end of stream.
\<close>

theorem unicodeEscape_pushback:
  "(Rune c = 0x5C \<and> runes (reader rd) = x # rest \<and> x \<noteq> 0x75 \<and> 0 \<le> Col (pos rd) \<longrightarrow>
      unicodeEscape_Transform rd c = (Inr c, rd\<lparr>reader := (reader rd)\<lparr>lastRune := None\<rparr>\<rparr>)
      \<and> runes (reader (snd (unicodeEscape_Transform rd c))) = x # rest
      \<and> pos (snd (unicodeEscape_Transform rd c)) = pos rd
      \<and> fst (readRune (snd (unicodeEscape_Transform rd c))) = Inr x
      \<and> fst (snd (readRune (snd (unicodeEscape_Transform rd c)))) = pos rd
      \<and> readRune (snd (unicodeEscape_Transform rd c)) = readRune rd)
   \<and> fst (run [opNext, opConsume, opNext, opConsume, opNext, opConsume, opNext] pushback_reader) =
       [Inr \<lparr>Rune = 0x61, Pos = \<lparr>Row = 1, Col = 1\<rparr>, Escaped = False\<rparr>,
        Inr \<lparr>Rune = 0x5C, Pos = \<lparr>Row = 1, Col = 2\<rparr>, Escaped = False\<rparr>,
        Inr \<lparr>Rune = 0x58, Pos = \<lparr>Row = 1, Col = 3\<rparr>, Escaped = False\<rparr>,
        Inl EOF]"
proof (intro conjI impI)
  assume h: "Rune c = 0x5C \<and> runes (reader rd) = x # rest \<and> x \<noteq> 0x75 \<and> 0 \<le> Col (pos rd)"
  then show t: "unicodeEscape_Transform rd c =
      (Inr c, rd\<lparr>reader := (reader rd)\<lparr>lastRune := None\<rparr>\<rparr>)"
    by (simp add: unicodeEscape_Transform_def readRune_cons unreadRune_def UnreadRune_def
        step_def Let_def)
  from h show "runes (reader (snd (unicodeEscape_Transform rd c))) = x # rest"
    by (simp add: t)
  show "pos (snd (unicodeEscape_Transform rd c)) = pos rd"
    by (simp add: t)
  from h show "fst (readRune (snd (unicodeEscape_Transform rd c))) = Inr x"
    by (simp add: t readRune_cons)
  from h show "fst (snd (readRune (snd (unicodeEscape_Transform rd c)))) = pos rd"
    by (simp add: t readRune_cons)
  from h show "readRune (snd (unicodeEscape_Transform rd c)) = readRune rd"
    by (simp add: t readRune_cons)
next
  show "fst (run [opNext, opConsume, opNext, opConsume, opNext, opConsume, opNext] pushback_reader) =
       [Inr \<lparr>Rune = 0x61, Pos = \<lparr>Row = 1, Col = 1\<rparr>, Escaped = False\<rparr>,
        Inr \<lparr>Rune = 0x5C, Pos = \<lparr>Row = 1, Col = 2\<rparr>, Escaped = False\<rparr>,
        Inr \<lparr>Rune = 0x58, Pos = \<lparr>Row = 1, Col = 3\<rparr>, Escaped = False\<rparr>,
        Inl EOF]"
    by (simp add: pushback_reader_def exec_defs)
qed

theorem unicodeEscape_pushback_witness:
  "Rune \<lparr>Rune = 0x5C, Pos = \<lparr>Row = 1, Col = 1\<rparr>, Escaped = False\<rparr> = 0x5C
   \<and> runes (reader (build [unicodeEscape] [0x58, 0x59] io_EOF)) = [0x58, 0x59]
   \<and> (0x58 :: rune) \<noteq> 0x75
   \<and> 0 \<le> Col (pos (build [unicodeEscape] [0x58, 0x59] io_EOF))
   \<and> unicodeEscape_Transform (build [unicodeEscape] [0x58, 0x59] io_EOF)
        \<lparr>Rune = 0x5C, Pos = \<lparr>Row = 1, Col = 1\<rparr>, Escaped = False\<rparr> =
      (Inr \<lparr>Rune = 0x5C, Pos = \<lparr>Row = 1, Col = 1\<rparr>, Escaped = False\<rparr>,
       build [unicodeEscape] [0x58, 0x59] io_EOF)"
  using unicodeEscape_pushback [of "\<lparr>Rune = 0x5C, Pos = \<lparr>Row = 1, Col = 1\<rparr>, Escaped = False\<rparr>"
      "build [unicodeEscape] [0x58, 0x59] io_EOF" "0x58" "[0x59]"]
  by (simp add: build_eq NewReader_def NewWithSize_def startPosition_def)

section \<open>Hexadecimal literals\<close>

lemma unhex_hex: "is_hex_digit c \<Longrightarrow> unhex c = Some (digit_value c)"
  by (auto simp: is_hex_digit_def unhex_def digit_value_def)

lemma unhex_not_hex: "\<not> is_hex_digit c \<Longrightarrow> unhex c = None"
  by (auto simp: is_hex_digit_def unhex_def)

lemma digit_value_range: "is_hex_digit c \<Longrightarrow> 0 \<le> digit_value c \<and> digit_value c \<le> 15"
  by (auto simp: is_hex_digit_def digit_value_def)

lemma unhex_all_hex:
  "is_hex_digit h1 \<Longrightarrow> is_hex_digit h2 \<Longrightarrow> is_hex_digit h3 \<Longrightarrow> is_hex_digit h4 \<Longrightarrow>
   unhex_all [h1, h2, h3, h4] 0 = Some (code_point h1 h2 h3 h4)"
  by (simp add: unhex_hex code_point_def)

lemma unhex_all_not_hex:
  "\<not> (is_hex_digit h1 \<and> is_hex_digit h2 \<and> is_hex_digit h3 \<and> is_hex_digit h4) \<Longrightarrow>
   unhex_all [h1, h2, h3, h4] 0 = None"
  by (cases "is_hex_digit h1"; cases "is_hex_digit h2"; cases "is_hex_digit h3";
      cases "is_hex_digit h4") (simp_all add: unhex_hex unhex_not_hex)

lemma code_point_range:
  "is_hex_digit h1 \<Longrightarrow> is_hex_digit h2 \<Longrightarrow> is_hex_digit h3 \<Longrightarrow> is_hex_digit h4 \<Longrightarrow>
   0 \<le> code_point h1 h2 h3 h4 \<and> code_point h1 h2 h3 h4 \<le> 0xFFFF"
  using digit_value_range [of h1] digit_value_range [of h2] digit_value_range [of h3]
    digit_value_range [of h4]
  by (simp add: code_point_def)

lemma Unquote_hex:
  assumes "is_hex_digit h1" "is_hex_digit h2" "is_hex_digit h3" "is_hex_digit h4"
  shows "Unquote [0x27, 0x5C, 0x75, h1, h2, h3, h4, 0x27] =
           (if is_surrogate (code_point h1 h2 h3 h4) then Inl ErrSyntax
            else Inr [code_point h1 h2 h3 h4])"
  using code_point_range [OF assms]
  by (auto simp: Unquote_def unhex_all_hex [OF assms] ValidRune_def is_surrogate_def
      simp del: unhex_all.simps)

lemma Unquote_not_hex:
  "\<not> (is_hex_digit h1 \<and> is_hex_digit h2 \<and> is_hex_digit h3 \<and> is_hex_digit h4) \<Longrightarrow>
   Unquote [0x27, 0x5C, 0x75, h1, h2, h3, h4, 0x27] = Inl ErrSyntax"
  by (simp add: Unquote_def unhex_all_not_hex del: unhex_all.simps)

lemma readDigits_four:
  "runes (reader rd) = h1 # h2 # h3 # h4 # rest \<Longrightarrow> 0 \<le> Col (pos rd) \<Longrightarrow>
   readDigits (Suc (Suc (Suc (Suc 0)))) c sb rd =
     (Inr (sb @ [h1, h2, h3, h4]),
      rd\<lparr>reader := (reader rd)\<lparr>runes := rest, lastRune := Some h4\<rparr>,
        pos := \<lparr>Row = Row (pos rd), Col = Col (pos rd) + 4\<rparr>\<rparr>)"
  by (simp add: readRune_cons)

lemma readDigits_EOF:
  "length (runes (reader rd)) < n \<Longrightarrow> atEnd (reader rd) = io_EOF \<Longrightarrow> 0 \<le> Col (pos rd) \<Longrightarrow>
   fst (readDigits n c sb rd) =
     Inl (PositionalError (Row (Pos c)) (Col (Pos c)) (str ''unexpected EOF reading unicode escape''))"
proof (induction n arbitrary: sb rd)
  case 0
  then show ?case by simp
next
  case (Suc n)
  show ?case
  proof (cases "runes (reader rd)")
    case Nil
    with Suc.prems show ?thesis by (simp add: readRune_nil)
  next
    case (Cons x xs)
    with Suc.prems show ?thesis
      by (simp add: readRune_cons Suc.IH)
  qed
qed

lemma unicodeEscape_literal:
  "Rune c = 0x5C \<Longrightarrow> runes (reader rd) = 0x75 # h1 # h2 # h3 # h4 # rest \<Longrightarrow> 0 \<le> Col (pos rd) \<Longrightarrow>
   unicodeEscape_Transform rd c =
     (case Unquote [0x27, 0x5C, 0x75, h1, h2, h3, h4, 0x27] of
        Inl err \<Rightarrow> Inl (PositionalError (Row (Pos c)) (Col (Pos c))
                        (str ''error parsing unicode escaped rune ''
                           @ [0x27, 0x5C, 0x75, h1, h2, h3, h4, 0x27] @ str '': '' @ err))
      | Inr res \<Rightarrow> (case res of [] \<Rightarrow> Inl Panic | v # _ \<Rightarrow> Inr (c\<lparr>Rune := v\<rparr>)),
      rd\<lparr>reader := (reader rd)\<lparr>runes := rest, lastRune := Some h4\<rparr>,
        pos := \<lparr>Row = Row (pos rd), Col = Col (pos rd) + 5\<rparr>\<rparr>)"
  by (simp add: unicodeEscape_Transform_def readRune_cons readDigits_four
      split: sum.split list.split)

lemma str_invalid_syntax: "str '': '' @ ErrSyntax = str '': invalid syntax''"
  by (simp add: str_def ErrSyntax_def)

section \<open>C4: unicode escape, success\<close>

text \<open>
  Claim C4, amended. With the unicode-escape transformer installed, a backslash followed
  by \<^verbatim>\<open>u\<close> and four hexadecimal digits whose value is not a surrogate half (not in
  D800..DFFF) is collapsed into one Char whose rune is the code point the four digits
  denote, whose position is that of the backslash and whose \<open>Escaped\<close> flag is false; the
  six raw runes are consumed. The source \<^verbatim>\<open>a\u0058\<close> yields a at (1,1), X at (1,2) and
  then end of stream.
\<close>

theorem unicodeEscape_decodes:
  "(transformers r = [unicodeEscape] \<and> wf r \<and> Buffered (buffer r) = 0 \<and>
      runes (reader r) = 0x5C # 0x75 # h1 # h2 # h3 # h4 # rest \<and>
      is_hex_digit h1 \<and> is_hex_digit h2 \<and> is_hex_digit h3 \<and> is_hex_digit h4 \<and>
      \<not> is_surrogate (code_point h1 h2 h3 h4) \<longrightarrow>
    Next r = (Inr \<lparr>Rune = code_point h1 h2 h3 h4, Pos = pos r, Escaped = False\<rparr>,
       r\<lparr>reader := (reader r)\<lparr>runes := rest, lastRune := Some h4\<rparr>,
         pos := \<lparr>Row = Row (pos r), Col = Col (pos r) + 6\<rparr>,
         buffer := Buffer_Write \<lparr>Rune = code_point h1 h2 h3 h4, Pos = pos r, Escaped = False\<rparr>
                     (buffer r)\<rparr>))
   \<and> fst (run [opNext, opConsume, opNext, opConsume, opNext] unicode_reader) =
       [Inr \<lparr>Rune = 0x61, Pos = \<lparr>Row = 1, Col = 1\<rparr>, Escaped = False\<rparr>,
        Inr \<lparr>Rune = 0x58, Pos = \<lparr>Row = 1, Col = 2\<rparr>, Escaped = False\<rparr>,
        Inl EOF]"
proof (intro conjI impI)
  assume h: "transformers r = [unicodeEscape] \<and> wf r \<and> Buffered (buffer r) = 0 \<and>
      runes (reader r) = 0x5C # 0x75 # h1 # h2 # h3 # h4 # rest \<and>
      is_hex_digit h1 \<and> is_hex_digit h2 \<and> is_hex_digit h3 \<and> is_hex_digit h4 \<and>
      \<not> is_surrogate (code_point h1 h2 h3 h4)"
  then have u: "Unquote [0x27, 0x5C, 0x75, h1, h2, h3, h4, 0x27] = Inr [code_point h1 h2 h3 h4]"
    by (simp add: Unquote_hex)
  from h show "Next r = (Inr \<lparr>Rune = code_point h1 h2 h3 h4, Pos = pos r, Escaped = False\<rparr>,
       r\<lparr>reader := (reader r)\<lparr>runes := rest, lastRune := Some h4\<rparr>,
         pos := \<lparr>Row = Row (pos r), Col = Col (pos r) + 6\<rparr>,
         buffer := Buffer_Write \<lparr>Rune = code_point h1 h2 h3 h4, Pos = pos r, Escaped = False\<rparr>
                     (buffer r)\<rparr>)"
    by (simp add: Next_def bufferChar_def wf_def readRune_cons unicodeEscape_literal u
        Buffered_def Buffer_Next_def Buffer_Write_def nth_append)
next
  show "fst (run [opNext, opConsume, opNext, opConsume, opNext] unicode_reader) =
       [Inr \<lparr>Rune = 0x61, Pos = \<lparr>Row = 1, Col = 1\<rparr>, Escaped = False\<rparr>,
        Inr \<lparr>Rune = 0x58, Pos = \<lparr>Row = 1, Col = 2\<rparr>, Escaped = False\<rparr>,
        Inl EOF]"
    by (simp add: unicode_reader_def exec_defs)
qed

theorem unicodeEscape_decodes_witness:
  "transformers (build [unicodeEscape] [0x5C, 0x75, 0x30, 0x30, 0x35, 0x38] io_EOF) = [unicodeEscape]
   \<and> wf (build [unicodeEscape] [0x5C, 0x75, 0x30, 0x30, 0x35, 0x38] io_EOF)
   \<and> Buffered (buffer (build [unicodeEscape] [0x5C, 0x75, 0x30, 0x30, 0x35, 0x38] io_EOF)) = 0
   \<and> runes (reader (build [unicodeEscape] [0x5C, 0x75, 0x30, 0x30, 0x35, 0x38] io_EOF)) =
       [0x5C, 0x75, 0x30, 0x30, 0x35, 0x38]
   \<and> is_hex_digit 0x30 \<and> is_hex_digit 0x35 \<and> is_hex_digit 0x38
   \<and> code_point 0x30 0x30 0x35 0x38 = 0x58
   \<and> \<not> is_surrogate (code_point 0x30 0x30 0x35 0x38)
   \<and> fst (Next (build [unicodeEscape] [0x5C, 0x75, 0x30, 0x30, 0x35, 0x38] io_EOF)) =
       Inr \<lparr>Rune = 0x58, Pos = \<lparr>Row = 1, Col = 1\<rparr>, Escaped = False\<rparr>"
  using unicodeEscape_decodes [of "build [unicodeEscape] [0x5C, 0x75, 0x30, 0x30, 0x35, 0x38] io_EOF"
      "0x30" "0x30" "0x35" "0x38" "[]"]
  by (simp add: build_eq NewReader_def NewWithSize_def startPosition_def wf_def Buffered_def
      is_hex_digit_def code_point_def digit_value_def is_surrogate_def)

text \<open>
  The claim as stated fails on the four hexadecimal digits \<^verbatim>\<open>D800\<close>: they denote a
  surrogate half, \<^verbatim>\<open>strconv.Unquote\<close> rejects the literal, and \<^verbatim>\<open>Next\<close> returns the parse
  error instead of a Char.
\<close>

theorem unicodeEscape_surrogate_rejected:
  "transformers surrogate_reader = [unicodeEscape]
   \<and> runes (reader surrogate_reader) = [0x5C, 0x75, 0x44, 0x38, 0x30, 0x30]
   \<and> is_hex_digit 0x44 \<and> is_hex_digit 0x38 \<and> is_hex_digit 0x30
   \<and> code_point 0x44 0x38 0x30 0x30 = 0xD800
   \<and> fst (Next surrogate_reader) =
       Inl (PositionalError 1 1
             (str ''error parsing unicode escaped rune ''
                @ [0x27, 0x5C, 0x75, 0x44, 0x38, 0x30, 0x30, 0x27] @ str '': invalid syntax''))"
  by (simp add: surrogate_reader_def exec_defs is_hex_digit_def code_point_def digit_value_def
      str_def ErrSyntax_def)

section \<open>C5: unicode escape, failure\<close>

lemma unicodeEscape_EOF:
  assumes "Rune c = 0x5C" "runes (reader rd) = 0x75 # ds" "length ds < 4"
    "atEnd (reader rd) = io_EOF" "0 \<le> Col (pos rd)"
  shows "fst (unicodeEscape_Transform rd c) =
     Inl (PositionalError (Row (Pos c)) (Col (Pos c)) (str ''unexpected EOF reading unicode escape''))"
proof -
  define rd1 where "rd1 = rd\<lparr>reader := (reader rd)\<lparr>runes := ds, lastRune := Some 0x75\<rparr>,
               pos := \<lparr>Row = Row (pos rd), Col = Col (pos rd) + 1\<rparr>\<rparr>"
  have rr: "readRune rd = (Inr 0x75, pos rd, rd1)"
    using assms by (simp add: readRune_cons rd1_def)
  have "fst (readDigits (Suc (Suc (Suc (Suc 0)))) c [0x27, 0x5C, 0x75] rd1) =
      Inl (PositionalError (Row (Pos c)) (Col (Pos c)) (str ''unexpected EOF reading unicode escape''))"
    using assms readDigits_EOF [of rd1 "Suc (Suc (Suc (Suc 0)))" c] by (simp add: rd1_def)
  then obtain r3 where "readDigits (Suc (Suc (Suc (Suc 0)))) c [0x27, 0x5C, 0x75] rd1 =
      (Inl (PositionalError (Row (Pos c)) (Col (Pos c))
             (str ''unexpected EOF reading unicode escape'')), r3)"
    by (cases "readDigits (Suc (Suc (Suc (Suc 0)))) c [0x27, 0x5C, 0x75] rd1") simp
  then show ?thesis
    using assms(1) by (simp add: unicodeEscape_Transform_def rr del: readDigits.simps)
qed

text \<open>
  Claim C5. With the unicode-escape transformer installed, when the four runes after
  backslash and \<^verbatim>\<open>u\<close> are not four hexadecimal digits, \<^verbatim>\<open>Next\<close> returns the error whose
  message is "error parsing unicode escaped rune '\uXXXX': invalid syntax", with the
  literal as typed, positioned at the backslash; when the stream ends before the four
  runes are read, \<^verbatim>\<open>Next\<close> returns "unexpected EOF reading unicode escape" positioned at
  the backslash. The source \<^verbatim>\<open>a\u005X\<close> yields a at (1,1) and then the parse error at
  (1,2).
\<close>

theorem unicodeEscape_fails:
  "(transformers r = [unicodeEscape] \<and> wf r \<and> Buffered (buffer r) = 0 \<and>
      runes (reader r) = 0x5C # 0x75 # h1 # h2 # h3 # h4 # rest \<and>
      \<not> (is_hex_digit h1 \<and> is_hex_digit h2 \<and> is_hex_digit h3 \<and> is_hex_digit h4) \<longrightarrow>
    fst (Next r) =
      Inl (PositionalError (Row (pos r)) (Col (pos r))
            (str ''error parsing unicode escaped rune ''
               @ [0x27, 0x5C, 0x75, h1, h2, h3, h4, 0x27] @ str '': invalid syntax'')))
   \<and> (transformers r = [unicodeEscape] \<and> wf r \<and> Buffered (buffer r) = 0 \<and>
      runes (reader r) = 0x5C # 0x75 # ds \<and> length ds < 4 \<and> atEnd (reader r) = io_EOF \<longrightarrow>
    fst (Next r) =
      Inl (PositionalError (Row (pos r)) (Col (pos r))
            (str ''unexpected EOF reading unicode escape'')))
   \<and> fst (run [opNext, opConsume, opNext] bad_hex_reader) =
       [Inr \<lparr>Rune = 0x61, Pos = \<lparr>Row = 1, Col = 1\<rparr>, Escaped = False\<rparr>,
        Inl (PositionalError 1 2
              (str ''error parsing unicode escaped rune ''
                 @ [0x27, 0x5C, 0x75, 0x30, 0x30, 0x35, 0x58, 0x27] @ str '': invalid syntax''))]"
proof (intro conjI impI)
  assume h: "transformers r = [unicodeEscape] \<and> wf r \<and> Buffered (buffer r) = 0 \<and>
      runes (reader r) = 0x5C # 0x75 # h1 # h2 # h3 # h4 # rest \<and>
      \<not> (is_hex_digit h1 \<and> is_hex_digit h2 \<and> is_hex_digit h3 \<and> is_hex_digit h4)"
  then have u: "Unquote [0x27, 0x5C, 0x75, h1, h2, h3, h4, 0x27] = Inl ErrSyntax"
    by (simp add: Unquote_not_hex)
  from h show "fst (Next r) =
      Inl (PositionalError (Row (pos r)) (Col (pos r))
            (str ''error parsing unicode escaped rune ''
               @ [0x27, 0x5C, 0x75, h1, h2, h3, h4, 0x27] @ str '': invalid syntax''))"
    by (simp add: Next_def bufferChar_def wf_def readRune_cons unicodeEscape_literal u
        str_invalid_syntax)
next
  assume h: "transformers r = [unicodeEscape] \<and> wf r \<and> Buffered (buffer r) = 0 \<and>
      runes (reader r) = 0x5C # 0x75 # ds \<and> length ds < 4 \<and> atEnd (reader r) = io_EOF"
  define c where "c = \<lparr>Rune = 0x5C, Pos = pos r, Escaped = False\<rparr>"
  define r1 where "r1 = r\<lparr>reader := (reader r)\<lparr>runes := 0x75 # ds, lastRune := Some 0x5C\<rparr>,
               pos := \<lparr>Row = Row (pos r), Col = Col (pos r) + 1\<rparr>\<rparr>"
  have rr: "readRune r = (Inr 0x5C, pos r, r1)"
    using h by (simp add: readRune_cons wf_def r1_def)
  have "fst (unicodeEscape_Transform r1 c) =
      Inl (PositionalError (Row (Pos c)) (Col (Pos c)) (str ''unexpected EOF reading unicode escape''))"
    using h unicodeEscape_EOF [of c r1 ds] by (simp add: r1_def c_def wf_def)
  then obtain r2 where "unicodeEscape_Transform r1 c =
      (Inl (PositionalError (Row (pos r)) (Col (pos r))
             (str ''unexpected EOF reading unicode escape'')), r2)"
    by (cases "unicodeEscape_Transform r1 c") (simp add: c_def)
  moreover have "transformers r1 = [unicodeEscape]"
    using h by (simp add: r1_def)
  ultimately show "fst (Next r) =
      Inl (PositionalError (Row (pos r)) (Col (pos r))
            (str ''unexpected EOF reading unicode escape''))"
    using h by (simp add: Next_def bufferChar_def rr c_def)
next
  show "fst (run [opNext, opConsume, opNext] bad_hex_reader) =
       [Inr \<lparr>Rune = 0x61, Pos = \<lparr>Row = 1, Col = 1\<rparr>, Escaped = False\<rparr>,
        Inl (PositionalError 1 2
              (str ''error parsing unicode escaped rune ''
                 @ [0x27, 0x5C, 0x75, 0x30, 0x30, 0x35, 0x58, 0x27] @ str '': invalid syntax''))]"
    by (simp add: bad_hex_reader_def exec_defs str_def ErrSyntax_def)
qed

theorem unicodeEscape_fails_witness:
  "wf (build [unicodeEscape] [0x5C, 0x75, 0x30, 0x30, 0x35, 0x20] io_EOF)
   \<and> Buffered (buffer (build [unicodeEscape] [0x5C, 0x75, 0x30, 0x30, 0x35, 0x20] io_EOF)) = 0
   \<and> runes (reader (build [unicodeEscape] [0x5C, 0x75, 0x30, 0x30, 0x35, 0x20] io_EOF)) =
       [0x5C, 0x75, 0x30, 0x30, 0x35, 0x20]
   \<and> \<not> is_hex_digit 0x20
   \<and> fst (Next (build [unicodeEscape] [0x5C, 0x75, 0x30, 0x30, 0x35, 0x20] io_EOF)) =
       Inl (PositionalError 1 1
             (str ''error parsing unicode escaped rune ''
                @ [0x27, 0x5C, 0x75, 0x30, 0x30, 0x35, 0x20, 0x27] @ str '': invalid syntax''))
   \<and> wf (build [unicodeEscape] [0x5C, 0x75, 0x30, 0x30, 0x35] io_EOF)
   \<and> Buffered (buffer (build [unicodeEscape] [0x5C, 0x75, 0x30, 0x30, 0x35] io_EOF)) = 0
   \<and> runes (reader (build [unicodeEscape] [0x5C, 0x75, 0x30, 0x30, 0x35] io_EOF)) =
       [0x5C, 0x75, 0x30, 0x30, 0x35]
   \<and> length [0x30, 0x30, 0x35 :: rune] < 4
   \<and> atEnd (reader (build [unicodeEscape] [0x5C, 0x75, 0x30, 0x30, 0x35] io_EOF)) = io_EOF
   \<and> fst (Next (build [unicodeEscape] [0x5C, 0x75, 0x30, 0x30, 0x35] io_EOF)) =
       Inl (PositionalError 1 1 (str ''unexpected EOF reading unicode escape''))"
  using unicodeEscape_fails [of "build [unicodeEscape] [0x5C, 0x75, 0x30, 0x30, 0x35, 0x20] io_EOF"
      "0x30" "0x30" "0x35" "0x20" "[]"]
    unicodeEscape_fails [of "build [unicodeEscape] [0x5C, 0x75, 0x30, 0x30, 0x35] io_EOF"
      _ _ _ _ _ "[0x30, 0x30, 0x35]"]
  by (simp add: build_eq NewReader_def NewWithSize_def startPosition_def wf_def Buffered_def
      is_hex_digit_def)

section \<open>Frame and monotonicity of the raw reads and the transformers\<close>

lemma pos_le_refl: "pos_le p p"
  by (simp add: pos_le_def)

lemma pos_le_trans: "pos_le p q \<Longrightarrow> pos_le q s \<Longrightarrow> pos_le p s"
  by (auto simp: pos_le_def)

lemma pos_lt_le_trans: "pos_lt p q \<Longrightarrow> pos_le q s \<Longrightarrow> pos_lt p s"
  by (auto simp: pos_lt_def pos_le_def)

lemma advances_refl: "1 \<le> Row (pos r) \<Longrightarrow> 1 \<le> Col (pos r) \<Longrightarrow> advances r r"
  by (simp add: advances_def pos_le_refl)

lemma advances_trans: "advances r r' \<Longrightarrow> advances r' r'' \<Longrightarrow> advances r r''"
  by (auto simp: advances_def intro: pos_le_trans)

lemma readRune_advances:
  assumes "1 \<le> Row (pos r)" "1 \<le> Col (pos r)" "readRune r = (x, p, r')"
  shows "advances r r'" and "p = pos r"
    and "x = Inr ru \<Longrightarrow> pos r' = \<lparr>Row = Row (pos r), Col = Col (pos r) + 1\<rparr>"
  using assms
  by (auto simp: raw_defs advances_def pos_le_def split: list.splits)

lemma readDigits_advances:
  "1 \<le> Row (pos rd) \<Longrightarrow> 1 \<le> Col (pos rd) \<Longrightarrow> readDigits n c sb rd = (res, rd') \<Longrightarrow>
   advances rd rd'"
proof (induction n arbitrary: sb rd)
  case 0
  then show ?case by (simp add: advances_refl)
next
  case (Suc n)
  obtain x p rd1 where rr: "readRune rd = (x, p, rd1)"
    by (cases "readRune rd") auto
  have a1: "advances rd rd1"
    using Suc.prems(1,2) rr by (rule readRune_advances)
  show ?case
  proof (cases x)
    case (Inl e)
    with Suc.prems(3) rr have "rd' = rd1"
      by (simp split: if_splits)
    with a1 show ?thesis by simp
  next
    case (Inr ru)
    with Suc.prems(3) rr have "readDigits n c (sb @ [ru]) rd1 = (res, rd')"
      by simp
    with a1 have "advances rd1 rd'"
      by (intro Suc.IH) (simp_all add: advances_def)
    with a1 show ?thesis by (rule advances_trans)
  qed
qed

lemma normalizeNewline_advances:
  "1 \<le> Row (pos rd) \<Longrightarrow> 1 \<le> Col (pos rd) \<Longrightarrow> normalizeNewline_Transform rd c = (res, rd') \<Longrightarrow>
   advances rd rd'"
  by (auto simp: normalizeNewline_Transform_def raw_defs advances_def pos_le_def
      split: if_splits list.splits option.splits)

lemma runeEscape_advances:
  "1 \<le> Row (pos rd) \<Longrightarrow> 1 \<le> Col (pos rd) \<Longrightarrow> runeEscape_Transform m rd c = (res, rd') \<Longrightarrow>
   advances rd rd'"
  by (auto simp: runeEscape_Transform_def raw_defs advances_def pos_le_def
      split: if_splits list.splits option.splits)

lemma unicodeEscape_advances:
  assumes "1 \<le> Row (pos rd)" "1 \<le> Col (pos rd)" "unicodeEscape_Transform rd c = (res, rd')"
  shows "advances rd rd'"
proof (cases "Rune c = 0x5C")
  case False
  with assms show ?thesis
    by (simp add: unicodeEscape_Transform_def advances_refl)
next
  case True
  obtain x p rd1 where rr: "readRune rd = (x, p, rd1)"
    by (cases "readRune rd") auto
  have a1: "advances rd rd1"
    using assms(1,2) rr by (rule readRune_advances)
  show ?thesis
  proof (cases x)
    case (Inl e)
    with assms(3) True rr have "rd' = rd1"
      by (simp add: unicodeEscape_Transform_def split: if_splits)
    with a1 show ?thesis by simp
  next
    case (Inr ru)
    show ?thesis
    proof (cases "ru = 0x75")
      case False
      with assms True rr Inr show ?thesis
        by (auto simp: unicodeEscape_Transform_def raw_defs advances_def pos_le_def
            split: if_splits list.splits option.splits)
    next
      case u: True
      obtain y rd2 where rd: "readDigits (Suc (Suc (Suc (Suc 0)))) c [0x27, 0x5C, 0x75] rd1 = (y, rd2)"
        by (cases "readDigits (Suc (Suc (Suc (Suc 0)))) c [0x27, 0x5C, 0x75] rd1") auto
      from a1 have "advances rd1 rd2"
        by (intro readDigits_advances [OF _ _ rd]) (simp_all add: advances_def)
      with a1 have a2: "advances rd rd2"
        by (rule advances_trans)
      from assms(3) True rr Inr u rd have "rd' = rd2"
        by (simp add: unicodeEscape_Transform_def Let_def del: readDigits.simps
            split: sum.splits list.splits)
      with a2 show ?thesis by simp
    qed
  qed
qed

lemma Transform_advances:
  "1 \<le> Row (pos rd) \<Longrightarrow> 1 \<le> Col (pos rd) \<Longrightarrow> Transform t rd c = (res, rd') \<Longrightarrow>
   advances rd rd'"
  by (cases t)
    (simp_all add: normalizeNewline_advances unicodeEscape_advances runeEscape_advances)

lemma Transform_Pos: "Transform t rd c = (Inr c', rd') \<Longrightarrow> Pos c' = Pos c"
proof (cases t)
  case normalizeNewline
  assume "Transform t rd c = (Inr c', rd')"
  with normalizeNewline show ?thesis
    by (auto simp: normalizeNewline_Transform_def Let_def
        split: if_splits prod.splits sum.splits option.splits)
next
  case unicodeEscape
  assume "Transform t rd c = (Inr c', rd')"
  with unicodeEscape show ?thesis
    by (auto simp: unicodeEscape_Transform_def Let_def simp del: readDigits.simps
        split: if_splits prod.splits sum.splits option.splits list.splits)
next
  case (runeEscape m)
  assume "Transform t rd c = (Inr c', rd')"
  with runeEscape show ?thesis
    by (auto simp: runeEscape_Transform_def split: if_splits prod.splits sum.splits option.splits)
qed

lemma applyTransformers_advances:
  "1 \<le> Row (pos r) \<Longrightarrow> 1 \<le> Col (pos r) \<Longrightarrow> applyTransformers ts r c = (res, r') \<Longrightarrow>
   advances r r'"
proof (induction ts arbitrary: r c)
  case Nil
  then show ?case by (simp add: advances_refl)
next
  case (Cons t ts)
  obtain y r1 where t: "Transform t r c = (y, r1)"
    by (cases "Transform t r c") auto
  have a1: "advances r r1"
    using Cons.prems(1,2) t by (rule Transform_advances)
  show ?case
  proof (cases y)
    case (Inl e)
    with Cons.prems(3) t have "r' = r1" by simp
    with a1 show ?thesis by simp
  next
    case (Inr c1)
    with Cons.prems(3) t have "applyTransformers ts r1 c1 = (res, r')" by simp
    with a1 have "advances r1 r'"
      by (intro Cons.IH) (simp_all add: advances_def)
    with a1 show ?thesis by (rule advances_trans)
  qed
qed

lemma applyTransformers_Pos:
  "applyTransformers ts r c = (Inr c', r') \<Longrightarrow> Pos c' = Pos c"
proof (induction ts arbitrary: r c)
  case Nil
  then show ?case by simp
next
  case (Cons t ts)
  then show ?case
    by (auto split: prod.splits sum.splits dest: Transform_Pos)
qed

text \<open>What \<^verbatim>\<open>bufferChar\<close> does to a reader, by its outcome.\<close>

lemma bufferChar_error:
  assumes "1 \<le> Row (pos r)" "1 \<le> Col (pos r)" "bufferChar r = (Some e, r')"
  shows "advances r r'"
proof -
  obtain x p r1 where rr: "readRune r = (x, p, r1)"
    by (cases "readRune r") auto
  have a1: "advances r r1"
    using assms(1,2) rr by (rule readRune_advances)
  show ?thesis
  proof (cases x)
    case (Inl err)
    with assms(3) rr have "r' = r1"
      by (simp add: bufferChar_def split: if_splits)
    with a1 show ?thesis by simp
  next
    case (Inr ru)
    obtain y r2 where t: "applyTransformers (transformers r1) r1 \<lparr>Rune = ru, Pos = p, Escaped = False\<rparr> = (y, r2)"
      by (cases "applyTransformers (transformers r1) r1 \<lparr>Rune = ru, Pos = p, Escaped = False\<rparr>") auto
    from a1 have "advances r1 r2"
      by (intro applyTransformers_advances [OF _ _ t]) (simp_all add: advances_def)
    with a1 have "advances r r2" by (rule advances_trans)
    moreover from assms(3) rr Inr t have "r' = r2"
      by (simp add: bufferChar_def split: sum.splits)
    ultimately show ?thesis by simp
  qed
qed

lemma bufferChar_written:
  assumes "1 \<le> Row (pos r)" "1 \<le> Col (pos r)" "bufferChar r = (None, r')"
  shows "\<exists>c. buffer r' = Buffer_Write c (buffer r) \<and> Pos c = pos r \<and>
             transformers r' = transformers r \<and> pos_lt (pos r) (pos r') \<and>
             1 \<le> Row (pos r') \<and> 1 \<le> Col (pos r')"
proof -
  obtain x p r1 where rr: "readRune r = (x, p, r1)"
    by (cases "readRune r") auto
  have a1: "advances r r1" and p: "p = pos r"
    using assms(1,2) rr by (rule readRune_advances)+
  from assms(3) rr obtain ru where x: "x = Inr ru"
    by (cases x) (simp_all add: bufferChar_def split: if_splits)
  have p1: "pos r1 = \<lparr>Row = Row (pos r), Col = Col (pos r) + 1\<rparr>"
    using assms(1,2) rr x by (rule readRune_advances)
  obtain y r2 where t: "applyTransformers (transformers r1) r1 \<lparr>Rune = ru, Pos = p, Escaped = False\<rparr> = (y, r2)"
    by (cases "applyTransformers (transformers r1) r1 \<lparr>Rune = ru, Pos = p, Escaped = False\<rparr>") auto
  from a1 have a2: "advances r1 r2"
    by (intro applyTransformers_advances [OF _ _ t]) (simp_all add: advances_def)
  from assms(3) rr x t obtain c where y: "y = Inr c" and r': "r' = r2\<lparr>buffer := Buffer_Write c (buffer r2)\<rparr>"
    by (cases y) (simp_all add: bufferChar_def)
  from t y have "Pos c = Pos \<lparr>Rune = ru, Pos = p, Escaped = False\<rparr>"
    by (intro applyTransformers_Pos) simp
  then have "Pos c = pos r" by (simp add: p)
  moreover have "pos_lt (pos r) (pos r1)"
    by (simp add: p1 pos_lt_def)
  then have "pos_lt (pos r) (pos r2)"
    using a2 by (auto simp: advances_def intro: pos_lt_le_trans)
  ultimately show ?thesis
    using a1 a2 by (auto simp: r' advances_def)
qed

section \<open>What Next does to the reader\<close>

lemma Next_Char:
  assumes "wf r" "Next r = (Inr c, r')"
  shows "wf r'" and "transformers r' = transformers r"
    and "cursor (buffer r') = cursor (buffer r)" and "dropped (buffer r') = dropped (buffer r)"
    and "cursor (buffer r') < length (elems (buffer r'))"
    and "elems (buffer r') ! cursor (buffer r') = c"
    and "pos_le (pos r) (pos r')"
    and "(0 < Buffered (buffer r) \<and> r' = r) \<or>
         (Buffered (buffer r) = 0 \<and> elems (buffer r') = elems (buffer r) @ [c] \<and>
          Pos c = pos r \<and> pos_lt (pos r) (pos r'))"
proof -
  have all: "wf r' \<and> transformers r' = transformers r
    \<and> cursor (buffer r') = cursor (buffer r) \<and> dropped (buffer r') = dropped (buffer r)
    \<and> cursor (buffer r') < length (elems (buffer r'))
    \<and> elems (buffer r') ! cursor (buffer r') = c
    \<and> pos_le (pos r) (pos r')
    \<and> ((0 < Buffered (buffer r) \<and> r' = r) \<or>
         (Buffered (buffer r) = 0 \<and> elems (buffer r') = elems (buffer r) @ [c] \<and>
          Pos c = pos r \<and> pos_lt (pos r) (pos r')))"
  proof (cases "Buffered (buffer r) = 0")
    case False
    with assms show ?thesis
      by (auto simp: Next_def Buffer_Next_def pos_le_refl split: if_splits)
  next
    case True
    with assms(2) have bc: "bufferChar r = (None, r')"
      and nx: "Buffer_Next (buffer r') = Some c"
      by (auto simp: Next_def split: prod.splits option.splits)
    from assms(1) have "1 \<le> Row (pos r)" "1 \<le> Col (pos r)"
      by (simp_all add: wf_def)
    from bufferChar_written [OF this bc] obtain c0 where
      w: "buffer r' = Buffer_Write c0 (buffer r)" "Pos c0 = pos r"
        "transformers r' = transformers r" "pos_lt (pos r) (pos r')"
        "1 \<le> Row (pos r')" "1 \<le> Col (pos r')"
      by blast
    from True assms(1) have cur: "cursor (buffer r) = length (elems (buffer r))"
      by (simp add: Buffered_def wf_def)
    with nx w(1) have "c = c0"
      by (simp add: Buffer_Next_def Buffer_Write_def)
    with w cur True show ?thesis
      by (auto simp: wf_def Buffer_Write_def pos_lt_def pos_le_def)
  qed
  from all show "wf r'" by blast
  from all show "transformers r' = transformers r" by blast
  from all show "cursor (buffer r') = cursor (buffer r)" by blast
  from all show "dropped (buffer r') = dropped (buffer r)" by blast
  from all show "cursor (buffer r') < length (elems (buffer r'))" by blast
  from all show "elems (buffer r') ! cursor (buffer r') = c" by blast
  from all show "pos_le (pos r) (pos r')" by blast
  from all show "(0 < Buffered (buffer r) \<and> r' = r) \<or>
         (Buffered (buffer r) = 0 \<and> elems (buffer r') = elems (buffer r) @ [c] \<and>
          Pos c = pos r \<and> pos_lt (pos r) (pos r'))" by blast
qed

lemma Next_error:
  assumes "wf r" "Next r = (Inl e, r')"
  shows "Buffered (buffer r) = 0" and "bufferChar r = (Some e, r')" and "advances r r'"
    and "wf r'"
proof -
  from assms(1) have p: "1 \<le> Row (pos r)" "1 \<le> Col (pos r)"
    by (simp_all add: wf_def)
  show b0: "Buffered (buffer r) = 0"
    using assms by (auto simp: Next_def Buffer_Next_def Buffered_def wf_def split: if_splits)
  show bc: "bufferChar r = (Some e, r')"
  proof (cases "bufferChar r")
    case (Pair y r1)
    show ?thesis
    proof (cases y)
      case None
      from bufferChar_written [OF p] Pair None obtain c0 where
        "buffer r1 = Buffer_Write c0 (buffer r)" by blast
      with assms b0 Pair None show ?thesis
        by (simp add: Next_def Buffer_Next_def Buffer_Write_def Buffered_def wf_def)
    next
      case (Some e')
      with assms(2) b0 Pair show ?thesis
        by (simp add: Next_def)
    qed
  qed
  show "advances r r'"
    using p bc by (rule bufferChar_error)
  with assms(1) show "wf r'"
    by (simp add: advances_def wf_def)
qed

lemma Next_wf: "wf r \<Longrightarrow> wf (snd (Next r))"
proof -
  assume w: "wf r"
  obtain res r' where n: "Next r = (res, r')" by (cases "Next r") auto
  show ?thesis
  proof (cases res)
    case (Inl e)
    with w n show ?thesis by (simp add: Next_error(4))
  next
    case (Inr c)
    with w n show ?thesis by (simp add: Next_Char(1))
  qed
qed

lemma Consume_wf: "wf r \<Longrightarrow> wf (Consume r)"
  by (simp add: wf_def Consume_def Buffer_Consume_def)

lemma Rollback_wf: "wf r \<Longrightarrow> wf (snd (Rollback s r))"
  by (cases "bufState s") (auto simp: wf_def Rollback_def Buffer_Rollback_def)

lemma Commit_wf: "wf r \<Longrightarrow> wf (Commit r)"
  by (simp add: wf_def Commit_def Buffer_Commit_def)

lemma build_wf: "wf (build ts rs e)"
  by (simp add: build_eq wf_def startPosition_def NewWithSize_def)

lemma reachable_wf: "reachable r \<Longrightarrow> wf r"
  by (induction rule: reachable.induct)
    (simp_all add: build_wf Next_wf Consume_wf Rollback_wf Commit_wf)

section \<open>The buffered Chars are in position order\<close>

lemma Next_ordered:
  assumes "wf r" "ordered r"
  shows "ordered (snd (Next r))"
proof -
  obtain res r' where n: "Next r = (res, r')" by (cases "Next r") auto
  have le: "list_all (\<lambda>c. pos_lt (Pos c) q) (elems (buffer r))" if "pos_le (pos r) q" for q
    using assms(2) that by (auto simp: ordered_def list_all_iff intro: pos_lt_le_trans)
  show ?thesis
  proof (cases res)
    case (Inl e)
    with assms(1) n have "advances r r'" by (simp add: Next_error(3))
    with assms(2) le [of "pos r'"] n show ?thesis
      by (simp add: ordered_def advances_def)
  next
    case (Inr c)
    note C = Next_Char [OF assms(1) n [unfolded Inr]]
    from C(8) show ?thesis
    proof
      assume "0 < Buffered (buffer r) \<and> r' = r"
      with assms(2) n show ?thesis by simp
    next
      assume a: "Buffered (buffer r) = 0 \<and> elems (buffer r') = elems (buffer r) @ [c] \<and>
          Pos c = pos r \<and> pos_lt (pos r) (pos r')"
      with assms(2) le [OF C(7)] n show ?thesis
        by (auto simp: ordered_def sorted_wrt_append list_all_iff)
    qed
  qed
qed

lemma Consume_ordered: "ordered r \<Longrightarrow> ordered (Consume r)"
  by (simp add: ordered_def Consume_def Buffer_Consume_def)

lemma Rollback_ordered: "ordered r \<Longrightarrow> ordered (snd (Rollback s r))"
  by (cases "bufState s") (auto simp: ordered_def Rollback_def Buffer_Rollback_def)

lemma Commit_ordered: "ordered r \<Longrightarrow> ordered (Commit r)"
  by (auto simp: ordered_def Commit_def Buffer_Commit_def list_all_iff sorted_wrt_drop
      drop_map [symmetric] dest: in_set_dropD)

lemma build_ordered: "ordered (build ts rs e)"
  by (simp add: build_eq ordered_def NewWithSize_def)

lemma reachable_ordered: "reachable r \<Longrightarrow> ordered r"
proof (induction rule: reachable.induct)
  case (built ts rs e)
  show ?case by (rule build_ordered)
next
  case (after_Next r)
  then show ?case by (simp add: Next_ordered reachable_wf)
next
  case (after_Consume r)
  then show ?case by (simp add: Consume_ordered)
next
  case (after_Rollback r s)
  then show ?case by (simp add: Rollback_ordered)
next
  case (after_Commit r)
  then show ?case by (simp add: Commit_ordered)
qed

section \<open>C9: consume monotonicity\<close>

text \<open>
  Claim C9. In every state a reader can reach (built with any transformers over any
  source, then driven by any sequence of \<^verbatim>\<open>Next\<close>, \<^verbatim>\<open>Consume\<close>, \<^verbatim>\<open>Rollback\<close> and
  \<^verbatim>\<open>Commit\<close>), the buffered Chars are in strictly increasing row-major position, and
  when \<^verbatim>\<open>Next\<close> returns a Char, that Char is consumed and \<^verbatim>\<open>Next\<close> returns the following
  Char, the position of the second is strictly later in row-major order than the
  position of the first: a later row, or the same row and a later column, by one column
  or by more when a transformer merged several raw runes.
\<close>

theorem consume_monotonic:
  "reachable r \<Longrightarrow>
   sorted_wrt pos_lt (map Pos (elems (buffer r))) \<and>
   (Next r = (Inr c, r1) \<and> Next (Consume r1) = (Inr c', r2) \<longrightarrow> pos_lt (Pos c) (Pos c'))"
proof (intro conjI impI)
  assume re: "reachable r"
  then show "sorted_wrt pos_lt (map Pos (elems (buffer r)))"
    using reachable_ordered [OF re] by (simp add: ordered_def)
  assume n: "Next r = (Inr c, r1) \<and> Next (Consume r1) = (Inr c', r2)"
  from re have w: "wf r" by (rule reachable_wf)
  note A = Next_Char [OF w conjunct1 [OF n]]
  have re2: "reachable r2"
    using reachable.after_Next [OF reachable.after_Consume [OF reachable.after_Next [OF re]]] n
    by simp
  have w1: "wf (Consume r1)" using A(1) by (rule Consume_wf)
  note B = Next_Char [OF w1 conjunct2 [OF n]]
  let ?k = "cursor (buffer r1)"
  have cur: "cursor (buffer (Consume r1)) = Suc ?k"
    and el: "elems (buffer (Consume r1)) = elems (buffer r1)"
    using A(5) by (simp_all add: Consume_def Buffer_Consume_def)
  have ext: "\<exists>ext. elems (buffer r2) = elems (buffer r1) @ ext"
    using B(8) el by auto
  have k2: "Suc ?k < length (elems (buffer r2))" and c': "elems (buffer r2) ! Suc ?k = c'"
    using B(3,5,6) cur by simp_all
  from ext A(5,6) have c: "elems (buffer r2) ! ?k = c"
    by (auto simp: nth_append)
  have "sorted_wrt pos_lt (map Pos (elems (buffer r2)))"
    using reachable_ordered [OF re2] by (simp add: ordered_def)
  then have "pos_lt (map Pos (elems (buffer r2)) ! ?k) (map Pos (elems (buffer r2)) ! Suc ?k)"
    using k2 sorted_wrt_nth_less [of pos_lt "map Pos (elems (buffer r2))" ?k "Suc ?k"] by simp
  with k2 c c' show "pos_lt (Pos c) (Pos c')"
    by simp
qed

theorem consume_monotonic_witness:
  "reachable (Consume (snd (Next rune_escape_reader)))
   \<and> Next (Consume (snd (Next rune_escape_reader))) =
       (Inr \<lparr>Rune = 0x78, Pos = \<lparr>Row = 1, Col = 2\<rparr>, Escaped = True\<rparr>,
        snd (Next (Consume (snd (Next rune_escape_reader)))))
   \<and> Next (Consume (snd (Next (Consume (snd (Next rune_escape_reader)))))) =
       (Inr \<lparr>Rune = 0x79, Pos = \<lparr>Row = 1, Col = 4\<rparr>, Escaped = True\<rparr>,
        snd (Next (Consume (snd (Next (Consume (snd (Next rune_escape_reader))))))))
   \<and> pos_lt \<lparr>Row = 1, Col = 2\<rparr> \<lparr>Row = 1, Col = 4\<rparr>"
proof -
  have re: "reachable (Consume (snd (Next rune_escape_reader)))"
    unfolding rune_escape_reader_def
    by (intro reachable.after_Consume reachable.after_Next reachable.built)
  have n1: "Next (Consume (snd (Next rune_escape_reader))) =
       (Inr \<lparr>Rune = 0x78, Pos = \<lparr>Row = 1, Col = 2\<rparr>, Escaped = True\<rparr>,
        snd (Next (Consume (snd (Next rune_escape_reader)))))"
    by (simp add: rune_escape_reader_def exec_defs)
  have n2: "Next (Consume (snd (Next (Consume (snd (Next rune_escape_reader)))))) =
       (Inr \<lparr>Rune = 0x79, Pos = \<lparr>Row = 1, Col = 4\<rparr>, Escaped = True\<rparr>,
        snd (Next (Consume (snd (Next (Consume (snd (Next rune_escape_reader))))))))"
    by (simp add: rune_escape_reader_def exec_defs)
  from consume_monotonic [OF re, THEN conjunct2, rule_format, OF conjI, OF n1 n2]
  have "pos_lt \<lparr>Row = 1, Col = 2\<rparr> \<lparr>Row = 1, Col = 4\<rparr>"
    by simp
  with re n1 n2 show ?thesis by blast
qed

section \<open>Replaying a run from the buffer\<close>

lemma run_append:
  "run (ops @ ops') r =
     (case run ops r of (a, r1) \<Rightarrow> (case run ops' r1 of (b, r2) \<Rightarrow> (a @ b, r2)))"
  by (induction ops r rule: run.induct) (simp_all split: prod.splits)

lemma Consume_pending:
  "0 < Buffered (buffer r) \<Longrightarrow>
   Consume r = r\<lparr>buffer := (buffer r)\<lparr>cursor := Suc (cursor (buffer r))\<rparr>\<rparr>"
  by (simp add: Consume_def Buffer_Consume_def Buffered_def)

text \<open>A run only appends to the buffer.\<close>

lemma run_extends:
  "wf r \<Longrightarrow> run ops r = (res, r1) \<Longrightarrow>
   wf r1 \<and> dropped (buffer r1) = dropped (buffer r) \<and>
   (\<exists>ext. elems (buffer r1) = elems (buffer r) @ ext)"
proof (induction ops arbitrary: r res)
  case Nil
  then show ?case by simp
next
  case (Cons o1 ops)
  show ?case
  proof (cases o1)
    case opConsume
    with Cons.prems have "run ops (Consume r) = (res, r1)" by simp
    from Cons.IH [OF Consume_wf [OF Cons.prems(1)] this] show ?thesis
      by (simp add: Consume_def Buffer_Consume_def split: if_splits)
  next
    case opNext
    obtain x r' where n: "Next r = (x, r')" by (cases "Next r") auto
    obtain rs where rn: "run ops r' = (rs, r1)"
      using Cons.prems(2) opNext n by (auto split: prod.splits)
    have w': "wf r'" using Next_wf [OF Cons.prems(1)] n by simp
    have "dropped (buffer r') = dropped (buffer r) \<and>
          (\<exists>ext. elems (buffer r') = elems (buffer r) @ ext)"
    proof (cases x)
      case (Inl e)
      with Next_error(3) [OF Cons.prems(1)] n show ?thesis
        by (simp add: advances_def)
    next
      case (Inr c)
      with Next_Char(4,8) [OF Cons.prems(1)] n show ?thesis
        by auto
    qed
    with Cons.IH [OF w' rn] show ?thesis by auto
  qed
qed

text \<open>
  After a run that follows the next/consume pattern, put the read cursor back where
  it was, in any reader that holds the run's final buffer: the same operations return
  the same results, and touch nothing but the cursor.
\<close>

lemma replay:
  "wf r \<Longrightarrow> clean ops r \<Longrightarrow> run ops r = (res, r1) \<Longrightarrow>
   buffer rx = (buffer r1)\<lparr>cursor := cursor (buffer r)\<rparr> \<Longrightarrow>
   run ops rx = (res, rx\<lparr>buffer := buffer r1\<rparr>)"
proof (induction ops arbitrary: r res rx)
  case Nil
  then show ?case by simp
next
  case (Cons o1 ops)
  show ?case
  proof (cases o1)
    case opConsume
    with Cons.prems have pend: "0 < Buffered (buffer r)" and cl: "clean ops (Consume r)"
      and rn: "run ops (Consume r) = (res, r1)"
      by simp_all
    from run_extends [OF Consume_wf [OF Cons.prems(1)] rn]
    obtain ext where "elems (buffer r1) = elems (buffer (Consume r)) @ ext" by blast
    with pend Cons.prems(4) have pendx: "0 < Buffered (buffer rx)"
      by (simp add: Buffered_def Consume_def Buffer_Consume_def)
    have "buffer (Consume rx) = (buffer r1)\<lparr>cursor := cursor (buffer (Consume r))\<rparr>"
      using Cons.prems(4) by (simp add: Consume_pending [OF pend] Consume_pending [OF pendx])
    from Cons.IH [OF Consume_wf [OF Cons.prems(1)] cl rn this]
    show ?thesis
      using opConsume by (simp add: Consume_pending [OF pendx])
  next
    case opNext
    with Cons.prems(2) obtain c r' where n: "Next r = (Inr c, r')" and cl: "clean ops r'"
      by (auto split: prod.splits sum.splits)
    with Cons.prems(3) opNext obtain rs where rn: "run ops r' = (rs, r1)"
      and res: "res = Inr c # rs"
      by (auto split: prod.splits)
    note C = Next_Char [OF Cons.prems(1) n]
    from run_extends [OF C(1) rn]
    obtain ext where ext: "elems (buffer r1) = elems (buffer r') @ ext" by blast
    have nx: "Next rx = (Inr c, rx)"
      using Cons.prems(4) C(3,5,6) ext
      by (simp add: Next_def Buffered_def Buffer_Next_def nth_append)
    have "buffer rx = (buffer r1)\<lparr>cursor := cursor (buffer r')\<rparr>"
      using Cons.prems(4) C(3) by simp
    from Cons.IH [OF C(1) cl rn this] nx show ?thesis
      using opNext res by simp
  qed
qed

lemma Rollback_State:
  assumes "wf r" "run ops r = (res, r1)" "buffer r2 = buffer r1"
  shows "Rollback (State r) r2 = (None, r2\<lparr>buffer := (buffer r1)\<lparr>cursor := cursor (buffer r)\<rparr>\<rparr>)"
proof -
  from run_extends [OF assms(1,2)] obtain ext where
    "dropped (buffer r1) = dropped (buffer r)" "elems (buffer r1) = elems (buffer r) @ ext"
    by blast
  with assms(1,3) show ?thesis
    by (simp add: Rollback_def State_def Buffer_State_def Buffer_Rollback_def wf_def)
qed

section \<open>C1: rollback round trip\<close>




section \<open>C10: a failed Next leaves the buffer alone\<close>

text \<open>
  Claim C10, amended. Whenever \<^verbatim>\<open>Next\<close> returns an error (end of stream, a positional
  source error or a transform error), the lookahead buffer is left exactly as it was:
  no Char is appended, the read cursor does not move and the buffered Chars are intact.
  So after a run in the next/consume pattern followed by a failing \<^verbatim>\<open>Next\<close>, a
  \<^verbatim>\<open>Rollback\<close> to the snapshot taken before the run succeeds and the replay returns the
  same Chars. When the failing \<^verbatim>\<open>Next\<close> found the source exhausted (the error is then
  end of stream, or the source's read error at the tracker's position), the replay also
  ends with the same error.
\<close>

theorem Next_error_atomic:
  "(wf r \<and> Next r = (Inl e, r') \<longrightarrow> buffer r' = buffer r)
   \<and> (wf r \<and> clean ops r \<and> run ops r = (res, r1) \<and> Next r1 = (Inl e, r2) \<longrightarrow>
        fst (Rollback (State r) r2) = None
        \<and> fst (run ops (snd (Rollback (State r) r2))) = res
        \<and> (runes (reader r1) = [] \<longrightarrow>
             e = (if atEnd (reader r1) = io_EOF then EOF
                  else PositionalError (Row (pos r1)) (Col (pos r1))
                         (str ''error reading rune from source: '' @ Error (atEnd (reader r1))))
             \<and> run (ops @ [opNext]) (snd (Rollback (State r) r2)) = (res @ [Inl e], r2)))"
proof (intro conjI impI)
  assume "wf r \<and> Next r = (Inl e, r')"
  then have "advances r r'" by (simp add: Next_error(3))
  then show "buffer r' = buffer r" by (simp add: advances_def)
next
  assume h: "wf r \<and> clean ops r \<and> run ops r = (res, r1) \<and> Next r1 = (Inl e, r2)"
  then have w: "wf r" and cl: "clean ops r" and rn: "run ops r = (res, r1)"
    and n: "Next r1 = (Inl e, r2)"
    by simp_all
  from run_extends [OF w rn] have w1: "wf r1" by blast
  have b0: "Buffered (buffer r1) = 0" and bc: "bufferChar r1 = (Some e, r2)"
    and b2: "buffer r2 = buffer r1"
    using Next_error [OF w1 n] by (simp_all add: advances_def)
  let ?r3 = "r2\<lparr>buffer := (buffer r1)\<lparr>cursor := cursor (buffer r)\<rparr>\<rparr>"
  have rb: "Rollback (State r) r2 = (None, ?r3)"
    by (rule Rollback_State [OF w rn b2])
  then show "fst (Rollback (State r) r2) = None" by simp
  have "run ops ?r3 = (res, ?r3\<lparr>buffer := buffer r1\<rparr>)"
    by (rule replay [OF w cl rn]) simp
  then have again: "run ops ?r3 = (res, r2)" by (simp add: b2 [symmetric])
  with rb show "fst (run ops (snd (Rollback (State r) r2))) = res" by simp
  assume nil: "runes (reader r1) = []"
  let ?e = "if atEnd (reader r1) = io_EOF then EOF
             else PositionalError (Row (pos r1)) (Col (pos r1))
                    (str ''error reading rune from source: '' @ Error (atEnd (reader r1)))"
  from bc nil have e: "e = ?e" and r2: "r2 = r1\<lparr>reader := (reader r1)\<lparr>lastRune := None\<rparr>\<rparr>"
    by (auto simp: bufferChar_def readRune_nil split: if_splits)
  show "e = ?e" by (rule e)
  have "Next r2 = (Inl e, r2)"
    using b0 nil by (simp add: Next_def bufferChar_def readRune_nil r2 e)
  with again rb show "run (ops @ [opNext]) (snd (Rollback (State r) r2)) = (res @ [Inl e], r2)"
    by (simp add: run_append)
qed

theorem Next_error_atomic_witness:
  "wf (build [] [] io_EOF)
   \<and> Next (build [] [] io_EOF) = (Inl EOF, build [] [] io_EOF)
   \<and> buffer (build [] [] io_EOF) = buffer (build [] [] io_EOF)
   \<and> wf (Consume (snd (Next (build [] [0x61, 0x62] (io_Error (str ''reader test error''))))))
   \<and> clean [opNext, opConsume]
       (Consume (snd (Next (build [] [0x61, 0x62] (io_Error (str ''reader test error''))))))
   \<and> fst (run [opNext, opConsume]
       (Consume (snd (Next (build [] [0x61, 0x62] (io_Error (str ''reader test error''))))))) =
       [Inr \<lparr>Rune = 0x62, Pos = \<lparr>Row = 1, Col = 2\<rparr>, Escaped = False\<rparr>]
   \<and> runes (reader (snd (run [opNext, opConsume]
       (Consume (snd (Next (build [] [0x61, 0x62] (io_Error (str ''reader test error'')))))))))
       = []
   \<and> fst (Next (snd (run [opNext, opConsume]
       (Consume (snd (Next (build [] [0x61, 0x62] (io_Error (str ''reader test error'')))))))))
       = Inl (PositionalError 1 3
               (str ''error reading rune from source: '' @ str ''reader test error''))
   \<and> fst (run ([opNext, opConsume] @ [opNext])
       (snd (Rollback
         (State (Consume (snd (Next (build [] [0x61, 0x62] (io_Error (str ''reader test error'')))))))
         (snd (Next (snd (run [opNext, opConsume]
           (Consume (snd (Next (build [] [0x61, 0x62]
              (io_Error (str ''reader test error''))))))))))))) =
       [Inr \<lparr>Rune = 0x62, Pos = \<lparr>Row = 1, Col = 2\<rparr>, Escaped = False\<rparr>,
        Inl (PositionalError 1 3
               (str ''error reading rune from source: '' @ str ''reader test error''))]"
proof -
  define r where "r = Consume (snd (Next (build [] [0x61, 0x62] (io_Error (str ''reader test error'')))))"
  define r1 where "r1 = snd (run [opNext, opConsume] r)"
  define r2 where "r2 = snd (Next r1)"
  define e where "e = PositionalError 1 3
               (str ''error reading rune from source: '' @ str ''reader test error'')"
  have w0: "wf (build [] [] io_EOF)" by (rule build_wf)
  have n0: "Next (build [] [] io_EOF) = (Inl EOF, build [] [] io_EOF)"
    by (simp add: exec_defs)
  have w: "wf r" by (simp add: r_def exec_defs)
  have cl: "clean [opNext, opConsume] r" by (simp add: r_def exec_defs)
  have rn: "run [opNext, opConsume] r =
      ([Inr \<lparr>Rune = 0x62, Pos = \<lparr>Row = 1, Col = 2\<rparr>, Escaped = False\<rparr>], r1)"
    by (simp add: r1_def r_def exec_defs)
  have nil: "runes (reader r1) = []" by (simp add: r1_def r_def exec_defs)
  have n: "Next r1 = (Inl e, r2)"
    by (simp add: r2_def r1_def r_def e_def exec_defs)
  from Next_error_atomic [THEN conjunct1, rule_format, OF conjI, OF w0 n0]
  have c1: "buffer (build [] [] io_EOF) = buffer (build [] [] io_EOF)" .
  from Next_error_atomic [THEN conjunct2, rule_format, of r "[opNext, opConsume]" _ r1 e r2]
    w cl rn nil n
  have c2: "run ([opNext, opConsume] @ [opNext]) (snd (Rollback (State r) r2)) =
      ([Inr \<lparr>Rune = 0x62, Pos = \<lparr>Row = 1, Col = 2\<rparr>, Escaped = False\<rparr>] @ [Inl e], r2)"
    by blast
  from w0 n0 c1 w cl rn nil n c2 show ?thesis
    unfolding r_def [symmetric] r1_def [symmetric] r2_def [symmetric] e_def [symmetric]
    by (simp add: r1_def [symmetric] r2_def [symmetric])
qed

text \<open>
  The claim as stated fails for a transform error: on the source \<^verbatim>\<open>a\u005X\<close> the run
  returns a and then the parse error, which has consumed the six raw runes of the
  escape; after the rollback the replay returns a and then end of stream.
\<close>

theorem transform_error_not_replayed:
  "fst (run [opNext, opConsume, opNext] bad_hex_reader) =
     [Inr \<lparr>Rune = 0x61, Pos = \<lparr>Row = 1, Col = 1\<rparr>, Escaped = False\<rparr>,
      Inl (PositionalError 1 2
            (str ''error parsing unicode escaped rune ''
               @ [0x27, 0x5C, 0x75, 0x30, 0x30, 0x35, 0x58, 0x27] @ str '': invalid syntax''))]
   \<and> fst (Rollback (State bad_hex_reader) (snd (run [opNext, opConsume, opNext] bad_hex_reader))) =
       None
   \<and> fst (run [opNext, opConsume, opNext]
            (snd (Rollback (State bad_hex_reader)
                    (snd (run [opNext, opConsume, opNext] bad_hex_reader))))) =
       [Inr \<lparr>Rune = 0x61, Pos = \<lparr>Row = 1, Col = 1\<rparr>, Escaped = False\<rparr>, Inl EOF]"
  by (simp add: bad_hex_reader_def exec_defs str_def ErrSyntax_def)

section \<open>C3: newline normalization\<close>










end
